theory Spec2Isabelle
  imports Main "HOL-Library.Sublist" "HOL-Library.AList"
begin

section \<open>Go strings and byte slices\<close>

text \<open>
  A Go \<^verbatim>\<open>string\<close> and a \<^verbatim>\<open>[]byte\<close> are sequences of bytes, and the program converts
  freely between the two (\<^verbatim>\<open>string(data)\<close>, \<^verbatim>\<open>[]byte(xmlContent)\<close>). Both are modelled as
  \<^typ>\<open>string\<close>, a list of 8-bit characters; \<^verbatim>\<open>len\<close> is \<^const>\<open>length\<close>. A nil slice has
  length 0 and the program only ever asks for its length, so nil is the empty list.

  The functions of package \<^verbatim>\<open>strings\<close> that the program calls are written out below from
  their documented behaviour. \<^verbatim>\<open>strings.Index\<close> returns the index of the first instance
  of the substring, or -1; \<^verbatim>\<open>strings.Contains\<close> is \<^verbatim>\<open>Index(s, substr) >= 0\<close>.
\<close>

type_synonym bytes = string

definition HasPrefix :: "string \<Rightarrow> string \<Rightarrow> bool" where
  "HasPrefix s p = (length p \<le> length s \<and> take (length p) s = p)"

definition HasSuffix :: "string \<Rightarrow> string \<Rightarrow> bool" where
  "HasSuffix s suf = (length suf \<le> length s \<and> drop (length s - length suf) s = suf)"

definition TrimSuffix :: "string \<Rightarrow> string \<Rightarrow> string" where
  "TrimSuffix s suf = (if HasSuffix s suf then take (length s - length suf) s else s)"

fun Index :: "string \<Rightarrow> string \<Rightarrow> int" where
  "Index [] substr = (if substr = [] then 0 else - 1)"
| "Index (c # s) substr =
     (if HasPrefix (c # s) substr then 0
      else (let i = Index s substr in if i < 0 then - 1 else i + 1))"

definition Contains :: "string \<Rightarrow> string \<Rightarrow> bool" where
  "Contains s substr = (Index s substr \<ge> 0)"

text \<open>
  \<^verbatim>\<open>strings.ToLower\<close> is a function of Go's standard library: on a string of ASCII bytes
  it maps \<^verbatim>\<open>A..Z\<close> to \<^verbatim>\<open>a..z\<close> and leaves every other byte alone; on other strings it
  decodes UTF-8 and lower-cases by the Unicode tables. The program's functions below take
  the lower-casing function as their parameter \<open>lc\<close>, so that what is proved of them holds
  for Go's function whatever it does beyond ASCII. \<open>ToLower\<close> is the ASCII function; it
  agrees with Go's on every ASCII string and is what the concrete evaluations use.
\<close>

definition lower_byte :: "char \<Rightarrow> char" where
  "lower_byte c =
     (case map_of (zip ''ABCDEFGHIJKLMNOPQRSTUVWXYZ'' ''abcdefghijklmnopqrstuvwxyz'') c of
        Some l \<Rightarrow> l
      | None \<Rightarrow> c)"

definition ToLower :: "string \<Rightarrow> string" where
  "ToLower s = map lower_byte s"

section \<open>The classifier\<close>

subsection \<open>The extractor's copy (internal/extractor)\<close>

text \<open>
  \<^verbatim>\<open>isZUGFeRDXML\<close> counts the indicators found in the lower-cased content and requires at
  least one. The receiver's \<^verbatim>\<open>Verbose\<close> flag only guards \<^verbatim>\<open>fmt.Printf\<close> calls; console
  output is not part of the model, so the flag is not an argument here.
\<close>

definition indicators :: "string list" where
  "indicators =
     [''crossindustrydocument'',
      ''crossindustryinvoice'',
      ''urn:ferd:'',
      ''urn:cen.eu:en16931'',
      ''zugferd'',
      ''factur-x'',
      ''xrechnung'',
      ''rsm:crossindustrydocument'',
      ''crossindustryinvoice'']"

fun count_indicators :: "(string \<Rightarrow> string) \<Rightarrow> string \<Rightarrow> string list \<Rightarrow> int \<Rightarrow> int" where
  "count_indicators lc contentLower [] foundIndicators = foundIndicators"
| "count_indicators lc contentLower (indicator # rest) foundIndicators =
     count_indicators lc contentLower rest
       (if Contains contentLower (lc indicator) then foundIndicators + 1 else foundIndicators)"

definition isZUGFeRDXML :: "(string \<Rightarrow> string) \<Rightarrow> bytes \<Rightarrow> bool" where
  "isZUGFeRDXML lc data =
     (if length data = 0 then False
      else (let contentLower = lc data
            in count_indicators lc contentLower indicators 0 > 0))"

definition validateZUGFeRDXML :: "bytes \<Rightarrow> bool" where
  "validateZUGFeRDXML data =
     (let content = data;
          hasXMLDecl = Contains content ''<?xml'';
          hasRootElement = (Contains content ''CrossIndustryDocument'' \<or>
                            Contains content ''CrossIndustryInvoice'');
          hasNamespace = (Contains content ''xmlns:'' \<and>
                          (Contains content ''urn:ferd:'' \<or>
                           Contains content ''urn:cen.eu:en16931''))
      in hasXMLDecl \<and> hasRootElement \<and> hasNamespace)"

subsection \<open>The validator's copy (internal/validation/validator.go)\<close>

text \<open>
  \<^verbatim>\<open>Validator.IsZUGFeRDXML\<close> has its own indicator list and returns at the first
  indicator it finds.
\<close>

definition validator_indicators :: "string list" where
  "validator_indicators =
     [''crossindustrydocument'',
      ''crossindustryinvoice'',
      ''urn:ferd:'',
      ''urn:cen.eu:en16931'',
      ''zugferd'',
      ''factur-x'',
      ''xrechnung'',
      ''rsm:crossindustrydocument'',
      ''crossindustryinvoice'']"

fun any_indicator :: "(string \<Rightarrow> string) \<Rightarrow> string \<Rightarrow> string list \<Rightarrow> bool" where
  "any_indicator lc contentLower [] = False"
| "any_indicator lc contentLower (indicator # rest) =
     (if Contains contentLower (lc indicator) then True
      else any_indicator lc contentLower rest)"

definition IsZUGFeRDXML :: "(string \<Rightarrow> string) \<Rightarrow> bytes \<Rightarrow> bool" where
  "IsZUGFeRDXML lc data =
     (if length data = 0 then False
      else (let contentLower = lc data
            in any_indicator lc contentLower validator_indicators))"

definition ValidateZUGFeRDXML :: "bytes \<Rightarrow> bool" where
  "ValidateZUGFeRDXML data =
     (let content = data;
          hasXMLDecl = Contains content ''<?xml'';
          hasRootElement = (Contains content ''CrossIndustryDocument'' \<or>
                            Contains content ''CrossIndustryInvoice'');
          hasNamespace = (Contains content ''xmlns:'' \<and>
                          (Contains content ''urn:ferd:'' \<or>
                           Contains content ''urn:cen.eu:en16931''))
      in hasXMLDecl \<and> hasRootElement \<and> hasNamespace)"

section \<open>Package path/filepath\<close>

text \<open>
  The path functions are those of a Unix build (\<^verbatim>\<open>GOOS=linux\<close> or \<^verbatim>\<open>darwin\<close>): the only
  separator is the slash and there are no volume names. \<^verbatim>\<open>filepath.Clean\<close> works on the
  path's elements: it drops empty elements and \<^verbatim>\<open>.\<close>, lets \<^verbatim>\<open>..\<close> remove the element before
  it, drops \<^verbatim>\<open>..\<close> at the root, keeps leading \<^verbatim>\<open>..\<close> of a relative path, and returns
  \<^verbatim>\<open>.\<close> for an empty result. \<open>out\<close> is the output written so far, last element first.
\<close>

definition IsPathSeparator :: "char \<Rightarrow> bool" where
  "IsPathSeparator c = (c = CHR ''/'')"

fun elements :: "string \<Rightarrow> string list" where
  "elements [] = [[]]"
| "elements (c # s) =
     (if IsPathSeparator c then [] # elements s
      else (case elements s of e # es \<Rightarrow> (c # e) # es | [] \<Rightarrow> [[c]]))"

fun clean_elements :: "bool \<Rightarrow> string list \<Rightarrow> string list \<Rightarrow> string list" where
  "clean_elements rooted out [] = rev out"
| "clean_elements rooted out (e # es) =
     (if e = [] \<or> e = ''.'' then clean_elements rooted out es
      else if e = ''..'' then
        (if out \<noteq> [] \<and> hd out \<noteq> ''..'' then clean_elements rooted (tl out) es
         else if \<not> rooted then clean_elements rooted (''..'' # out) es
         else clean_elements rooted out es)
      else clean_elements rooted (e # out) es)"

fun join_sep :: "string list \<Rightarrow> string" where
  "join_sep [] = []"
| "join_sep [e] = e"
| "join_sep (e # es) = e @ ''/'' @ join_sep es"

definition Clean :: "string \<Rightarrow> string" where
  "Clean path =
     (if path = [] then ''.''
      else (let rooted = IsPathSeparator (hd path);
                out = (if rooted then ''/'' else []) @
                      join_sep (clean_elements rooted [] (elements path))
            in if out = [] then ''.'' else out))"

text \<open>\<^verbatim>\<open>Dir\<close> cleans the path up to and including its last separator.\<close>

definition Dir :: "string \<Rightarrow> string" where
  "Dir path = Clean (rev (dropWhile (\<lambda>c. \<not> IsPathSeparator c) (rev path)))"

text \<open>\<^verbatim>\<open>Base\<close> strips trailing separators and returns the last element.\<close>

definition Base :: "string \<Rightarrow> string" where
  "Base path =
     (if path = [] then ''.''
      else (let stripped = rev (dropWhile IsPathSeparator (rev path));
                last_element = rev (takeWhile (\<lambda>c. \<not> IsPathSeparator c) (rev stripped))
            in if last_element = [] then ''/'' else last_element))"

text \<open>
  \<^verbatim>\<open>Ext\<close> scans from the end of the path, stops at a separator, and returns the suffix
  that starts at the first dot it meets.
\<close>

fun ext_scan :: "string \<Rightarrow> string \<Rightarrow> string" where
  "ext_scan [] seen = []"
| "ext_scan (c # earlier) seen =
     (if IsPathSeparator c then []
      else if c = CHR ''.'' then c # seen
      else ext_scan earlier (c # seen))"

definition Ext :: "string \<Rightarrow> string" where
  "Ext path = ext_scan (rev path) []"

text \<open>\<^verbatim>\<open>Join\<close> ignores leading empty elements and cleans the rest joined by slashes.\<close>

fun Join :: "string list \<Rightarrow> string" where
  "Join [] = []"
| "Join (e # es) = (if e \<noteq> [] then Clean (join_sep (e # es)) else Join es)"

section \<open>The single-document extractor (internal/extractor)\<close>

record ZUGFeRDExtractor =
  InputPath :: string
  OutputPath :: string
  Verbose :: bool

definition KnownXMLFilenames :: "string list" where
  "KnownXMLFilenames =
     [''ZUGFeRD-invoice.xml'',
      ''zugferd-invoice.xml'',
      ''factur-x.xml'',
      ''xrechnung.xml'',
      ''cii.xml'']"

text \<open>
  Errors are values. Each constructor stands for one \<^verbatim>\<open>fmt.Errorf\<close> of the program; an
  error that wraps another one (\<^verbatim>\<open>%v\<close>) carries it.
\<close>

datatype error =
    TempDirError
  | PdfcpuError
  | RelaxedPdfcpuError
  | ReadDirError
  | OpenError
  | ReadError
  | ManualFoundNothing
  | AllMethodsFailed error
  | NoEmbeddedFiles
  | NoZUGFeRDAttachment "string list"
  | XMLNotFound error
  | MkdirAllError
  | WriteError
  | SaveError error
  | GlobError
  | NoPDFFilesFound string

subsection \<open>Discovery\<close>

text \<open>
  An attachment set is a Go \<^verbatim>\<open>map[string][]byte\<close>. It is modelled as an association list
  with distinct keys; \<^verbatim>\<open>attachments[k]\<close> is \<^const>\<open>map_of\<close>, an assignment
  \<^verbatim>\<open>attachments[k] = v\<close> is \<^const>\<open>AList.update\<close>. Go does not fix the order in which
  \<^verbatim>\<open>range\<close> visits a map, and it may differ from one loop to the next: the order of the
  list stands for the order of the visit, and two visits of one map are two lists with
  the same set of entries.
\<close>

type_synonym attachments = "(string \<times> bytes) list"

fun find_known :: "(string \<Rightarrow> string) \<Rightarrow> attachments \<Rightarrow> string list \<Rightarrow> (bytes \<times> string) option" where
  "find_known lc attachments [] = None"
| "find_known lc attachments (knownName # rest) =
     (case map_of attachments knownName of
        Some data \<Rightarrow>
          if isZUGFeRDXML lc data then Some (data, knownName)
          else find_known lc attachments rest
      | None \<Rightarrow> find_known lc attachments rest)"

fun find_any_xml :: "(string \<Rightarrow> string) \<Rightarrow> attachments \<Rightarrow> (bytes \<times> string) option" where
  "find_any_xml lc [] = None"
| "find_any_xml lc ((filename, data) # rest) =
     (if HasSuffix (lc filename) ''.xml'' then
        (if isZUGFeRDXML lc data then Some (data, filename) else find_any_xml lc rest)
      else find_any_xml lc rest)"

definition findZUGFeRDXML :: "(string \<Rightarrow> string) \<Rightarrow> attachments \<Rightarrow> error + (bytes \<times> string)" where
  "findZUGFeRDXML lc attachments =
     (case find_known lc attachments KnownXMLFilenames of
        Some found \<Rightarrow> Inr found
      | None \<Rightarrow>
          (case find_any_xml lc attachments of
             Some found \<Rightarrow> Inr found
           | None \<Rightarrow> Inl (NoZUGFeRDAttachment (map fst attachments))))"

subsection \<open>Output path\<close>

fun name_in :: "string \<Rightarrow> string list \<Rightarrow> bool" where
  "name_in filename [] = False"
| "name_in filename (knownName # rest) =
     (if filename = knownName then True else name_in filename rest)"

definition isStandardXMLFilename :: "string \<Rightarrow> bool" where
  "isStandardXMLFilename filename = name_in filename KnownXMLFilenames"

definition generateOutputPath :: "ZUGFeRDExtractor \<Rightarrow> string \<Rightarrow> string" where
  "generateOutputPath z xmlFilename =
     (if OutputPath z \<noteq> [] then OutputPath z
      else (let dir = Dir (InputPath z);
                baseName = TrimSuffix (Base (InputPath z)) (Ext (InputPath z));
                outputFilename = (if isStandardXMLFilename xmlFilename then xmlFilename
                                  else baseName @ ''.xml'')
            in Join [dir, outputFilename]))"

subsection \<open>The manual byte-scan strategy\<close>

definition endPatterns :: "string list" where
  "endPatterns =
     [''</rsm:CrossIndustryDocument>'',
      ''</rsm:CrossIndustryInvoice>'',
      ''</CrossIndustryDocument>'',
      ''</CrossIndustryInvoice>'']"

text \<open>
  The loop over \<^verbatim>\<open>endPatterns\<close> of \<^verbatim>\<open>extractXMLFromPosition\<close>, with the running \<^verbatim>\<open>endPos\<close>.
\<close>

fun scan_endPatterns :: "string \<Rightarrow> string list \<Rightarrow> int \<Rightarrow> int" where
  "scan_endPatterns content [] endPos = endPos"
| "scan_endPatterns content (pattern # rest) endPos =
     (let idx = Index content pattern
      in if idx \<noteq> - 1 then
           (let candidateEnd = idx + int (length pattern)
            in if candidateEnd < endPos then scan_endPatterns content rest candidateEnd
               else scan_endPatterns content rest endPos)
         else scan_endPatterns content rest endPos)"

definition extractXMLFromPosition :: "bytes \<Rightarrow> int \<Rightarrow> bytes" where
  "extractXMLFromPosition data startPos =
     (if startPos < 0 \<or> startPos \<ge> int (length data) then []
      else (let content = drop (nat startPos) data;
                maxLength = int (length content);
                endPos = scan_endPatterns content endPatterns maxLength
            in if endPos < maxLength then take (nat endPos) content else []))"

definition guessXMLFilename :: "(string \<Rightarrow> string) \<Rightarrow> bytes \<Rightarrow> string" where
  "guessXMLFilename lc data =
     (let content = lc data
      in if Contains content ''xrechnung'' then ''xrechnung.xml''
         else if Contains content ''factur-x'' then ''factur-x.xml''
         else if Contains content ''zugferd'' then
           (if Contains content ''urn:ferd:pdfa:crossindustrydocument:invoice:1p0''
            then ''ZUGFeRD-invoice.xml''
            else ''zugferd-invoice.xml'')
         else ''invoice.xml'')"

definition xmlStartPatterns :: "string list" where
  "xmlStartPatterns =
     [''<?xml version='' @ [CHR 0x22] @ ''1.0'' @ [CHR 0x22],
      ''<rsm:CrossIndustryDocument'',
      ''<rsm:CrossIndustryInvoice'']"

text \<open>
  The loop over \<^verbatim>\<open>xmlStartPatterns\<close> of \<^verbatim>\<open>extractAttachmentsManual\<close>: only the first
  occurrence of each start pattern is looked at.
\<close>

fun scan_startPatterns :: "(string \<Rightarrow> string) \<Rightarrow> bytes \<Rightarrow> string list \<Rightarrow> attachments \<Rightarrow> attachments" where
  "scan_startPatterns lc data [] attachments = attachments"
| "scan_startPatterns lc data (pattern # rest) attachments =
     (let idx = Index data pattern
      in if idx \<noteq> - 1 then
           (let xmlData = extractXMLFromPosition data idx
            in if length xmlData > 0 \<and> isZUGFeRDXML lc xmlData then
                 (let filename = guessXMLFilename lc xmlData
                  in scan_startPatterns lc data rest (AList.update filename xmlData attachments))
               else scan_startPatterns lc data rest attachments)
         else scan_startPatterns lc data rest attachments)"

subsection \<open>What the outside world answers\<close>

text \<open>
  The container parser (pdfcpu) and the file system are not part of the program. For
  one input path, \<open>pdfcpu_run\<close> holds what one parser-based strategy meets: whether the
  scratch directory can be made, whether \<^verbatim>\<open>api.ExtractAttachmentsFile\<close> succeeds, and
  what \<^verbatim>\<open>os.ReadDir\<close> then lists (\<open>None\<close> when it fails). A directory entry has a name,
  may be a directory, and \<^verbatim>\<open>os.ReadFile\<close> of it gives its bytes or fails (\<open>None\<close>).
  The deferred removal of the scratch directory does not change what a strategy
  returns and is left out. A \<open>container\<close> adds what the manual strategy meets when it
  opens and reads the file itself; a \<open>world\<close> gives a container for every path, says
  which directories can be made and which files written, and what \<^verbatim>\<open>filepath.Glob\<close>
  returns for a pattern (\<open>None\<close> for a malformed pattern).
\<close>

datatype DirEntry = DirEntry (Name: string) (IsDir: bool) (ReadFile: "bytes option")

record pdfcpu_run =
  MkdirTemp_ok :: bool
  ExtractAttachmentsFile_ok :: bool
  ReadDir_result :: "DirEntry list option"

record container =
  standard_run :: pdfcpu_run
  relaxed_run :: pdfcpu_run
  Open_ok :: bool
  ReadAll_result :: "bytes option"

record world =
  container_at :: "string \<Rightarrow> container"
  MkdirAll_ok :: "string \<Rightarrow> bool"
  WriteFile_ok :: "string \<Rightarrow> bool"
  Glob_result :: "string \<Rightarrow> string list option"

subsection \<open>The three strategies\<close>

fun read_entries :: "DirEntry list \<Rightarrow> attachments \<Rightarrow> attachments" where
  "read_entries [] attachments = attachments"
| "read_entries (entry # files) attachments =
     (if IsDir entry then read_entries files attachments
      else (case ReadFile entry of
              None \<Rightarrow> read_entries files attachments
            | Some data \<Rightarrow> read_entries files (AList.update (Name entry) data attachments)))"

definition readExtractedFiles :: "pdfcpu_run \<Rightarrow> error + attachments" where
  "readExtractedFiles run =
     (case ReadDir_result run of
        None \<Rightarrow> Inl ReadDirError
      | Some files \<Rightarrow> Inr (read_entries files []))"

definition extractAttachmentsStandard :: "container \<Rightarrow> error + attachments" where
  "extractAttachmentsStandard c =
     (if \<not> MkdirTemp_ok (standard_run c) then Inl TempDirError
      else if \<not> ExtractAttachmentsFile_ok (standard_run c) then Inl PdfcpuError
      else readExtractedFiles (standard_run c))"

definition extractAttachmentsRelaxed :: "container \<Rightarrow> error + attachments" where
  "extractAttachmentsRelaxed c =
     (if \<not> MkdirTemp_ok (relaxed_run c) then Inl TempDirError
      else if \<not> ExtractAttachmentsFile_ok (relaxed_run c) then Inl RelaxedPdfcpuError
      else readExtractedFiles (relaxed_run c))"

definition extractAttachmentsManual :: "(string \<Rightarrow> string) \<Rightarrow> container \<Rightarrow> error + attachments" where
  "extractAttachmentsManual lc c =
     (if \<not> Open_ok c then Inl OpenError
      else (case ReadAll_result c of
              None \<Rightarrow> Inl ReadError
            | Some data \<Rightarrow>
                (let attachments = scan_startPatterns lc data xmlStartPatterns []
                 in if length attachments = 0 then Inl ManualFoundNothing
                    else Inr attachments)))"

subsection \<open>ExtractXML\<close>

text \<open>
  \<^verbatim>\<open>ExtractXML\<close> first runs the strategies. \<open>strategy_chain\<close> is that first part of its
  body, the nested \<^verbatim>\<open>if err != nil\<close>; besides the attachments or the error it returns the
  strategies that were called, in the order of the calls.
\<close>

datatype strategy = Standard | Relaxed | Manual

definition strategy_chain :: "(string \<Rightarrow> string) \<Rightarrow> container \<Rightarrow> strategy list \<times> (error + attachments)" where
  "strategy_chain lc c =
     (case extractAttachmentsStandard c of
        Inr attachments \<Rightarrow> ([Standard], Inr attachments)
      | Inl err1 \<Rightarrow>
          (case extractAttachmentsRelaxed c of
             Inr attachments \<Rightarrow> ([Standard, Relaxed], Inr attachments)
           | Inl err2 \<Rightarrow>
               (case extractAttachmentsManual lc c of
                  Inr attachments \<Rightarrow> ([Standard, Relaxed, Manual], Inr attachments)
                | Inl err3 \<Rightarrow> ([Standard, Relaxed, Manual], Inl (AllMethodsFailed err3)))))"

definition saveXMLToFile :: "world \<Rightarrow> bytes \<Rightarrow> string \<Rightarrow> error option" where
  "saveXMLToFile w data outputPath =
     (let dir = Dir outputPath
      in if \<not> MkdirAll_ok w dir then Some MkdirAllError
         else if \<not> WriteFile_ok w outputPath then Some WriteError
         else None)"

text \<open>
  A successful \<^verbatim>\<open>ExtractXML\<close> has written one file: \<open>Written\<close> records its path, its
  bytes and the name of the attachment they came from.
\<close>

record Written =
  written_path :: string
  written_bytes :: bytes
  source_name :: string

definition ExtractXML :: "(string \<Rightarrow> string) \<Rightarrow> world \<Rightarrow> ZUGFeRDExtractor \<Rightarrow> strategy list \<times> (error + Written)" where
  "ExtractXML lc w z =
     (case strategy_chain lc (container_at w (InputPath z)) of
        (tried, Inl err) \<Rightarrow> (tried, Inl err)
      | (tried, Inr attachments) \<Rightarrow>
          (tried,
           if length attachments = 0 then Inl NoEmbeddedFiles
           else (case findZUGFeRDXML lc attachments of
                   Inl err \<Rightarrow> Inl (XMLNotFound err)
                 | Inr (xmlData, xmlFilename) \<Rightarrow>
                     (let outputPath = generateOutputPath z xmlFilename
                      in case saveXMLToFile w xmlData outputPath of
                           Some err \<Rightarrow> Inl (SaveError err)
                         | None \<Rightarrow>
                             Inr \<lparr>written_path = outputPath, written_bytes = xmlData,
                                  source_name = xmlFilename\<rparr>))))"

section \<open>The batch processor (internal/extractor, batch code)\<close>

text \<open>
  \<^verbatim>\<open>BatchProcessor\<close>, \<^verbatim>\<open>ProcessResult\<close>, \<^verbatim>\<open>ProcessBatch\<close> and \<^verbatim>\<open>worker\<close> of package
  \<^verbatim>\<open>extractor\<close>, the type the command-line program builds. The record field
  \<open>BatchVerbose\<close> is the struct's \<^verbatim>\<open>Verbose\<close>, \<open>ReportedOutputPath\<close> is
  \<^verbatim>\<open>ProcessResult.OutputPath\<close>.

  The workers run concurrently and take paths from the \<^verbatim>\<open>jobs\<close> channel; each path is
  handled by one worker, on its own. The model keeps what does not depend on the
  schedule: the number of workers started, the paths sent on \<^verbatim>\<open>jobs\<close>, and for each
  path the result its worker reports together with what its \<^verbatim>\<open>ExtractXML\<close> did. The
  results are listed in the order of the queue; the program receives them in any order
  and only counts them. \<^verbatim>\<open>ProcessBatch\<close> returns the number of workers it started and
  either the error it returned or the run it completed.
\<close>

record BatchProcessor =
  InputPattern :: string
  OutputDir :: string
  Workers :: int
  BatchVerbose :: bool

record ProcessResult =
  Filename :: string
  ReportedOutputPath :: string
  Error :: "error option"

definition worker :: "(string \<Rightarrow> string) \<Rightarrow> world \<Rightarrow> BatchProcessor \<Rightarrow> string \<Rightarrow> ProcessResult \<times> (error + Written)" where
  "worker lc w bp filename =
     (let outputPath =
            (if OutputDir bp \<noteq> [] then
               (let baseName = Base filename;
                    baseName = TrimSuffix baseName (Ext baseName)
                in Join [OutputDir bp, baseName @ ''.xml''])
             else []);
          extractor = \<lparr>InputPath = filename, OutputPath = outputPath, Verbose = BatchVerbose bp\<rparr>;
          done = snd (ExtractXML lc w extractor)
      in case done of
           Inl err \<Rightarrow>
             (\<lparr>Filename = filename, ReportedOutputPath = [], Error = Some err\<rparr>, done)
         | Inr file \<Rightarrow>
             (if outputPath = [] then
                (let baseName = Base filename;
                     baseName = TrimSuffix baseName (Ext baseName)
                 in (\<lparr>Filename = filename,
                      ReportedOutputPath = Join [Dir filename, baseName @ ''.xml''],
                      Error = None\<rparr>, done))
              else (\<lparr>Filename = filename, ReportedOutputPath = outputPath, Error = None\<rparr>,
                    done)))"

text \<open>The loop that keeps the \<^verbatim>\<open>.pdf\<close> entries of the glob result.\<close>

fun keep_pdf :: "(string \<Rightarrow> string) \<Rightarrow> string list \<Rightarrow> string list" where
  "keep_pdf lc [] = []"
| "keep_pdf lc (file # files) =
     (if lc (Ext file) = ''.pdf'' then file # keep_pdf lc files else keep_pdf lc files)"

record BatchRun =
  jobs :: "string list"
  results :: "(ProcessResult \<times> (error + Written)) list"
  successful_count :: int
  failed_count :: int

fun tally :: "(ProcessResult \<times> (error + Written)) list \<Rightarrow> int \<Rightarrow> int \<Rightarrow> int \<times> int" where
  "tally [] successful failed = (successful, failed)"
| "tally ((result, performed) # rest) successful failed =
     (if Error result \<noteq> None then tally rest successful (failed + 1)
      else tally rest (successful + 1) failed)"

definition ProcessBatch :: "(string \<Rightarrow> string) \<Rightarrow> world \<Rightarrow> BatchProcessor \<Rightarrow> int \<times> (error + BatchRun)" where
  "ProcessBatch lc w bp =
     (case Glob_result w (InputPattern bp) of
        None \<Rightarrow> (0, Inl GlobError)
      | Some files \<Rightarrow>
          if length files = 0 then (0, Inl (NoPDFFilesFound (InputPattern bp)))
          else (let pdfFiles = keep_pdf lc files
                in if length pdfFiles = 0 then (0, Inl (NoPDFFilesFound (InputPattern bp)))
                   else (let started = max 0 (Workers bp);
                             received = (if started > 0 then map (worker lc w bp) pdfFiles
                                         else []);
                             (successful, failed) = tally received 0 0
                         in (started,
                             Inr \<lparr>jobs = pdfFiles, results = received,
                                  successful_count = successful, failed_count = failed\<rparr>))))"

section \<open>Notions the statements use\<close>

text \<open>
  \<open>occurs_at p s i\<close>: the pattern \<open>p\<close> stands in \<open>s\<close> at offset \<open>i\<close>.
  \<open>passes_sniff lc atts name\<close>: the set has an attachment of that name and its bytes
  pass the sniff predicate. \<open>xml_candidate lc e\<close>: the entry's name ends in \<^verbatim>\<open>.xml\<close>
  once lower-cased and its bytes pass the sniff predicate.
\<close>

definition occurs_at :: "string \<Rightarrow> string \<Rightarrow> nat \<Rightarrow> bool" where
  "occurs_at p s i = (i + length p \<le> length s \<and> take (length p) (drop i s) = p)"

definition passes_sniff :: "(string \<Rightarrow> string) \<Rightarrow> attachments \<Rightarrow> string \<Rightarrow> bool" where
  "passes_sniff lc atts name =
     (case map_of atts name of Some data \<Rightarrow> isZUGFeRDXML lc data | None \<Rightarrow> False)"

definition xml_candidate :: "(string \<Rightarrow> string) \<Rightarrow> string \<times> bytes \<Rightarrow> bool" where
  "xml_candidate lc e = (HasSuffix (lc (fst e)) ''.xml'' \<and> isZUGFeRDXML lc (snd e))"

section \<open>Concrete inputs\<close>

text \<open>Attachment sets: three canonical names at once, and two plain \<^verbatim>\<open>.xml\<close> names
  in the two orders a visit of the map can take.\<close>

definition three_canonical :: attachments where
  "three_canonical =
     [(''cii.xml'', ''<cii zugferd/>''),
      (''zugferd-invoice.xml'', ''<zugferd 2/>''),
      (''ZUGFeRD-invoice.xml'', ''<zugferd 1/>'')]"

definition two_canonical :: attachments where
  "two_canonical =
     [(''cii.xml'', ''<cii zugferd/>''),
      (''zugferd-invoice.xml'', ''<zugferd 2/>'')]"

definition two_canonical_other_visit :: attachments where
  "two_canonical_other_visit =
     [(''zugferd-invoice.xml'', ''<zugferd 2/>''),
      (''cii.xml'', ''<cii zugferd/>'')]"

definition two_plain :: attachments where
  "two_plain = [(''a.xml'', ''<zugferd a/>''), (''b.xml'', ''<zugferd b/>'')]"

definition two_plain_other_visit :: attachments where
  "two_plain_other_visit = [(''b.xml'', ''<zugferd b/>''), (''a.xml'', ''<zugferd a/>'')]"

text \<open>A canonical name whose bytes are no invoice beside a text file that mentions
  one, and a set with a single \<^verbatim>\<open>.xml\<close> candidate in two visits.\<close>

definition mislabelled :: attachments where
  "mislabelled = [(''factur-x.xml'', ''<html/>''), (''notes.txt'', ''zugferd'')]"

definition one_plain :: attachments where
  "one_plain = [(''a.xml'', ''<zugferd a/>''), (''notes.txt'', ''zugferd'')]"

definition one_plain_other_visit :: attachments where
  "one_plain_other_visit = [(''notes.txt'', ''zugferd''), (''a.xml'', ''<zugferd a/>'')]"

text \<open>Worlds. A parser run that lists the given entries, and one in which the parser
  rejects the container.\<close>

definition run_listing :: "DirEntry list \<Rightarrow> pdfcpu_run" where
  "run_listing entries =
     \<lparr>MkdirTemp_ok = True, ExtractAttachmentsFile_ok = True, ReadDir_result = Some entries\<rparr>"

definition run_rejected :: pdfcpu_run where
  "run_rejected =
     \<lparr>MkdirTemp_ok = True, ExtractAttachmentsFile_ok = False, ReadDir_result = None\<rparr>"

text \<open>Raw bytes in which a start marker of the \<^verbatim>\<open>rsm:\<close> family is followed first by a
  closing tag of the other family.\<close>

definition mixed_families :: bytes where
  "mixed_families = ''%<rsm:CrossIndustryInvoice>a</CrossIndustryInvoice>b</rsm:CrossIndustryInvoice>.''"

text \<open>Raw bytes that end with the closing tag, and a container that holds them.\<close>

definition tag_at_end :: bytes where
  "tag_at_end = ''%<rsm:CrossIndustryInvoice>a</rsm:CrossIndustryInvoice>''"

text \<open>A container that the strict parser rejects and the relaxed parser reads.\<close>

definition rejected_by_standard :: container where
  "rejected_by_standard =
     \<lparr>standard_run = run_rejected,
      relaxed_run = run_listing [DirEntry ''factur-x.xml'' False (Some ''<factur-x/>'')],
      Open_ok = True,
      ReadAll_result = Some ''%PDF''\<rparr>"

text \<open>A container that both parsers reject and whose raw bytes hold an invoice.\<close>

definition only_raw_bytes :: container where
  "only_raw_bytes =
     \<lparr>standard_run = run_rejected,
      relaxed_run = run_rejected,
      Open_ok = True,
      ReadAll_result = Some mixed_families\<rparr>"

definition only_raw_tag_at_end :: container where
  "only_raw_tag_at_end =
     \<lparr>standard_run = run_rejected,
      relaxed_run = run_rejected,
      Open_ok = True,
      ReadAll_result = Some tag_at_end\<rparr>"

text \<open>A container for which the strict parser finds no attachment and the relaxed
  parser would find an invoice.\<close>

definition empty_for_standard :: container where
  "empty_for_standard =
     \<lparr>standard_run = run_listing [],
      relaxed_run = run_listing [DirEntry ''factur-x.xml'' False (Some ''<factur-x/>'')],
      Open_ok = True,
      ReadAll_result = Some ''%PDF''\<rparr>"

text \<open>
  A directory \<^verbatim>\<open>in\<close> with \<^verbatim>\<open>a.pdf\<close> (one attachment \<^verbatim>\<open>data.xml\<close>, an invoice),
  \<^verbatim>\<open>b.pdf\<close> (no attachment), \<^verbatim>\<open>c.txt\<close> (not a container) and \<^verbatim>\<open>d.pdf\<close> (one attachment
  \<^verbatim>\<open>factur-x.xml\<close>, an invoice). Every write succeeds. The pattern \<^verbatim>\<open>in/*\<close> matches the
  first three, \<^verbatim>\<open>in/*.pdf\<close> matches the three containers, \<^verbatim>\<open>in/*.txt\<close> only the text file.
  A directory \<^verbatim>\<open>scans\<close> holds \<^verbatim>\<open>E.PDF\<close> and \<^verbatim>\<open>readme.md\<close>, neither of them a container
  that can be read.
\<close>

definition directory_in :: world where
  "directory_in =
     \<lparr>container_at = (\<lambda>path.
        if path = ''in/a.pdf'' then
          \<lparr>standard_run = run_listing [DirEntry ''data.xml'' False (Some ''<zugferd/>'')],
           relaxed_run = run_rejected, Open_ok = True, ReadAll_result = Some ''%PDF''\<rparr>
        else if path = ''in/b.pdf'' then
          \<lparr>standard_run = run_listing [],
           relaxed_run = run_listing [], Open_ok = True, ReadAll_result = Some ''%PDF''\<rparr>
        else if path = ''in/d.pdf'' then
          \<lparr>standard_run = run_listing [DirEntry ''factur-x.xml'' False (Some ''<factur-x/>'')],
           relaxed_run = run_rejected, Open_ok = True, ReadAll_result = Some ''%PDF''\<rparr>
        else
          \<lparr>standard_run = run_rejected,
           relaxed_run = run_rejected, Open_ok = True, ReadAll_result = Some ''text''\<rparr>),
      MkdirAll_ok = (\<lambda>path. True),
      WriteFile_ok = (\<lambda>path. True),
      Glob_result = (\<lambda>pattern.
        if pattern = ''in/*'' then Some [''in/a.pdf'', ''in/b.pdf'', ''in/c.txt'']
        else if pattern = ''in/*.pdf'' then Some [''in/a.pdf'', ''in/b.pdf'', ''in/d.pdf'']
        else if pattern = ''in/*.txt'' then Some [''in/c.txt'']
        else if pattern = ''scans/*'' then Some [''scans/E.PDF'', ''scans/readme.md'']
        else Some [])\<rparr>"

section \<open>Facts about the string functions\<close>

lemma HasPrefix_iff_prefix: "HasPrefix s p \<longleftrightarrow> prefix p s"
proof
  assume "HasPrefix s p"
  then have "take (length p) s = p" by (simp add: HasPrefix_def)
  then have "s = p @ drop (length p) s" by (metis append_take_drop_id)
  then show "prefix p s" by (metis prefixI)
next
  assume "prefix p s"
  then obtain r where "s = p @ r" by (auto simp: prefix_def)
  then show "HasPrefix s p" by (simp add: HasPrefix_def)
qed

lemma Index_ge: "- 1 \<le> Index s sub"
  by (induction s) (auto simp: Let_def)

lemma Index_nonneg_iff_sublist: "0 \<le> Index s sub \<longleftrightarrow> sublist sub s"
proof (induction s)
  case Nil
  then show ?case by simp
next
  case (Cons c s)
  have "- 1 \<le> Index s sub" by (rule Index_ge)
  then have "(0 \<le> Index (c # s) sub) = (prefix sub (c # s) \<or> 0 \<le> Index s sub)"
    by (auto simp: Let_def HasPrefix_iff_prefix)
  with Cons show ?case by (simp add: sublist_Cons_right)
qed

lemma Contains_iff_sublist: "Contains s sub \<longleftrightarrow> sublist sub s"
  by (simp add: Contains_def Index_nonneg_iff_sublist)

lemma count_indicators_eq:
  "count_indicators lc cl xs n = n + int (length (filter (\<lambda>i. Contains cl (lc i)) xs))"
  by (induction xs arbitrary: n) auto

lemma count_indicators_pos:
  "0 < count_indicators lc cl xs 0 \<longleftrightarrow> (\<exists>i \<in> set xs. Contains cl (lc i))"
  by (auto simp: count_indicators_eq filter_empty_conv)

lemma any_indicator_iff:
  "any_indicator lc cl xs \<longleftrightarrow> (\<exists>i \<in> set xs. Contains cl (lc i))"
  by (induction xs) auto

lemma isZUGFeRDXML_iff:
  "isZUGFeRDXML lc data \<longleftrightarrow> data \<noteq> [] \<and> (\<exists>i \<in> set indicators. sublist (lc i) (lc data))"
  by (simp add: isZUGFeRDXML_def Let_def count_indicators_pos Contains_iff_sublist)

lemma IsZUGFeRDXML_iff:
  "IsZUGFeRDXML lc data \<longleftrightarrow>
     data \<noteq> [] \<and> (\<exists>i \<in> set validator_indicators. sublist (lc i) (lc data))"
  by (simp add: IsZUGFeRDXML_def Let_def any_indicator_iff Contains_iff_sublist)

lemma ToLower_indicators: "\<forall>i \<in> set indicators. ToLower i = i"
  by (simp add: indicators_def ToLower_def lower_byte_def)

lemma ToLower_validator_indicators: "\<forall>i \<in> set validator_indicators. ToLower i = i"
  by (simp add: validator_indicators_def ToLower_def lower_byte_def)

section \<open>The sniff predicate\<close>

text \<open>
  C6. \<^verbatim>\<open>isZUGFeRDXML\<close> (and the validator's \<^verbatim>\<open>IsZUGFeRDXML\<close>) is false on the empty blob;
  on any blob it is true exactly when the blob is not empty and its lower-cased content
  contains one of the eight indicator strings. One indicator is enough. The lower-casing
  function is any function that leaves the (already lower-case) indicators as they are,
  as Go's does.
\<close>

theorem sniff_is_any_indicator:
  assumes "\<forall>i \<in> set indicators. lc i = i"
  shows "\<not> isZUGFeRDXML lc [] \<and> \<not> IsZUGFeRDXML lc [] \<and>
         (isZUGFeRDXML lc data \<longleftrightarrow>
            data \<noteq> [] \<and>
            (\<exists>i \<in> {''crossindustrydocument'', ''crossindustryinvoice'', ''urn:ferd:'',
                     ''urn:cen.eu:en16931'', ''zugferd'', ''factur-x'', ''xrechnung'',
                     ''rsm:crossindustrydocument''}. sublist i (lc data))) \<and>
         (IsZUGFeRDXML lc data \<longleftrightarrow>
            data \<noteq> [] \<and>
            (\<exists>i \<in> {''crossindustrydocument'', ''crossindustryinvoice'', ''urn:ferd:'',
                     ''urn:cen.eu:en16931'', ''zugferd'', ''factur-x'', ''xrechnung'',
                     ''rsm:crossindustrydocument''}. sublist i (lc data)))"
proof -
  have s: "set indicators =
      {''crossindustrydocument'', ''crossindustryinvoice'', ''urn:ferd:'',
       ''urn:cen.eu:en16931'', ''zugferd'', ''factur-x'', ''xrechnung'',
       ''rsm:crossindustrydocument''}"
    by (auto simp: indicators_def)
  have v: "set validator_indicators = set indicators"
    by (simp add: indicators_def validator_indicators_def)
  have fx: "(\<exists>i \<in> set indicators. sublist (lc i) (lc data)) \<longleftrightarrow>
             (\<exists>i \<in> set indicators. sublist i (lc data))"
    using assms by auto
  have e: "isZUGFeRDXML lc data \<longleftrightarrow> data \<noteq> [] \<and> (\<exists>i \<in> set indicators. sublist i (lc data))"
    unfolding isZUGFeRDXML_iff fx ..
  have v': "IsZUGFeRDXML lc data \<longleftrightarrow> data \<noteq> [] \<and> (\<exists>i \<in> set indicators. sublist i (lc data))"
    unfolding IsZUGFeRDXML_iff v fx ..
  have n: "\<not> isZUGFeRDXML lc []" "\<not> IsZUGFeRDXML lc []"
    by (simp_all add: isZUGFeRDXML_def IsZUGFeRDXML_def)
  have "\<not> isZUGFeRDXML lc [] \<and> \<not> IsZUGFeRDXML lc [] \<and>
        (isZUGFeRDXML lc data \<longleftrightarrow>
           data \<noteq> [] \<and> (\<exists>i \<in> set indicators. sublist i (lc data))) \<and>
        (IsZUGFeRDXML lc data \<longleftrightarrow>
           data \<noteq> [] \<and> (\<exists>i \<in> set indicators. sublist i (lc data)))"
    using e v' n by (intro conjI)
  then show ?thesis unfolding s .
qed

theorem sniff_is_any_indicator_witness:
  "isZUGFeRDXML ToLower ''<FACTUR-X/>'' \<and> IsZUGFeRDXML ToLower ''<FACTUR-X/>'' \<and>
   \<not> isZUGFeRDXML ToLower []"
proof -
  have l: "ToLower ''<FACTUR-X/>'' = ''<factur-x/>''"
    by (simp add: ToLower_def lower_byte_def)
  have yes: "sublist ''factur-x'' (ToLower ''<FACTUR-X/>'')"
    unfolding l by (simp add: Contains_iff_sublist [symmetric] Contains_def HasPrefix_def)
  have ex: "\<exists>i \<in> {''crossindustrydocument'', ''crossindustryinvoice'', ''urn:ferd:'',
                    ''urn:cen.eu:en16931'', ''zugferd'', ''factur-x'', ''xrechnung'',
                    ''rsm:crossindustrydocument''}. sublist i (ToLower ''<FACTUR-X/>'')"
    by (rule bexI [where x = "''factur-x''"]) (rule yes, simp)
  note t = sniff_is_any_indicator [OF ToLower_indicators, of "''<FACTUR-X/>''"]
  have a: "isZUGFeRDXML ToLower ''<FACTUR-X/>''"
    by (rule t [THEN conjunct2, THEN conjunct2, THEN conjunct1, THEN iffD2])
       (rule conjI, simp, rule ex)
  have b: "IsZUGFeRDXML ToLower ''<FACTUR-X/>''"
    by (rule t [THEN conjunct2, THEN conjunct2, THEN conjunct2, THEN iffD2])
       (rule conjI, simp, rule ex)
  have c: "\<not> isZUGFeRDXML ToLower []"
    by (rule t [THEN conjunct1])
  from a b c show ?thesis by (intro conjI)
qed

section \<open>The structural-validity predicate\<close>

text \<open>
  C9. \<^verbatim>\<open>validateZUGFeRDXML\<close> (and the validator's \<^verbatim>\<open>ValidateZUGFeRDXML\<close>) is true exactly
  when the content contains the XML declaration \<^verbatim>\<open><?xml\<close>, and one of the root element
  markers \<^verbatim>\<open>CrossIndustryDocument\<close>, \<^verbatim>\<open>CrossIndustryInvoice\<close> as written (the content is
  not lower-cased), and the token \<^verbatim>\<open>xmlns:\<close> together with one of the namespace URIs
  \<^verbatim>\<open>urn:ferd:\<close>, \<^verbatim>\<open>urn:cen.eu:en16931\<close>. It is therefore false on the empty blob.
\<close>

theorem structurally_valid_iff:
  "(validateZUGFeRDXML data \<longleftrightarrow>
      sublist ''<?xml'' data \<and>
      (sublist ''CrossIndustryDocument'' data \<or> sublist ''CrossIndustryInvoice'' data) \<and>
      sublist ''xmlns:'' data \<and>
      (sublist ''urn:ferd:'' data \<or> sublist ''urn:cen.eu:en16931'' data)) \<and>
   (ValidateZUGFeRDXML data \<longleftrightarrow>
      sublist ''<?xml'' data \<and>
      (sublist ''CrossIndustryDocument'' data \<or> sublist ''CrossIndustryInvoice'' data) \<and>
      sublist ''xmlns:'' data \<and>
      (sublist ''urn:ferd:'' data \<or> sublist ''urn:cen.eu:en16931'' data)) \<and>
   \<not> validateZUGFeRDXML [] \<and> \<not> ValidateZUGFeRDXML []"
  by (simp add: validateZUGFeRDXML_def ValidateZUGFeRDXML_def Let_def Contains_iff_sublist)

section \<open>The two copies of the classifier agree\<close>

text \<open>
  C10. On every blob \<^verbatim>\<open>Validator.IsZUGFeRDXML\<close> returns what the extractor's
  \<^verbatim>\<open>isZUGFeRDXML\<close> returns, and \<^verbatim>\<open>Validator.ValidateZUGFeRDXML\<close> returns what the
  extractor's \<^verbatim>\<open>validateZUGFeRDXML\<close> returns. The extractor's diagnostics are console
  output only, so its result is the same with and without \<^verbatim>\<open>Verbose\<close>.
\<close>

theorem classifier_copies_agree:
  "IsZUGFeRDXML lc data = isZUGFeRDXML lc data \<and>
   ValidateZUGFeRDXML data = validateZUGFeRDXML data"
proof -
  have "set validator_indicators = set indicators"
    by (simp add: indicators_def validator_indicators_def)
  then have "IsZUGFeRDXML lc data = isZUGFeRDXML lc data"
    by (simp add: IsZUGFeRDXML_iff isZUGFeRDXML_iff)
  moreover have "ValidateZUGFeRDXML data = validateZUGFeRDXML data"
    by (simp add: ValidateZUGFeRDXML_def validateZUGFeRDXML_def)
  ultimately show ?thesis ..
qed

section \<open>The sniff predicate on the concrete inputs\<close>

lemma sniff_by_indicator:
  "i \<in> set indicators \<Longrightarrow> data \<noteq> [] \<Longrightarrow> Contains (lc data) (lc i) \<Longrightarrow> isZUGFeRDXML lc data"
  by (auto simp: isZUGFeRDXML_def Let_def count_indicators_pos)

lemma zugferd_indicator: "''zugferd'' \<in> set indicators"
  by (simp add: indicators_def)

lemma sniff_zugferd_examples:
  "isZUGFeRDXML ToLower ''<zugferd 1/>''" "isZUGFeRDXML ToLower ''<zugferd 2/>''"
  "isZUGFeRDXML ToLower ''<cii zugferd/>''" "isZUGFeRDXML ToLower ''<zugferd a/>''"
  "isZUGFeRDXML ToLower ''<zugferd b/>''" "isZUGFeRDXML ToLower ''<zugferd/>''"
  by (rule sniff_by_indicator [OF zugferd_indicator],
      simp, simp add: ToLower_def lower_byte_def Contains_def HasPrefix_def)+

lemma sniff_factur_x: "isZUGFeRDXML ToLower ''<factur-x/>''"
  by (rule sniff_by_indicator [where i = "''factur-x''"])
     (simp_all add: indicators_def ToLower_def lower_byte_def Contains_def HasPrefix_def)

lemma sniff_slice: "isZUGFeRDXML ToLower ''<rsm:CrossIndustryInvoice>a</CrossIndustryInvoice>''"
  by (rule sniff_by_indicator [where i = "''crossindustryinvoice''"])
     (simp_all add: indicators_def ToLower_def lower_byte_def Contains_def HasPrefix_def)

lemma no_sniff_html: "\<not> isZUGFeRDXML ToLower ''<html/>''"
  by (simp add: isZUGFeRDXML_def indicators_def ToLower_def lower_byte_def Contains_def
        HasPrefix_def)

lemma xml_suffixes:
  "HasSuffix (ToLower ''a.xml'') ''.xml''" "HasSuffix (ToLower ''b.xml'') ''.xml''"
  "\<not> HasSuffix (ToLower ''notes.txt'') ''.xml''"
  by (simp_all add: HasSuffix_def ToLower_def lower_byte_def)

section \<open>Discovery\<close>

lemma passes_sniff_iff:
  "passes_sniff lc atts k \<longleftrightarrow> (\<exists>d. map_of atts k = Some d \<and> isZUGFeRDXML lc d)"
  by (simp add: passes_sniff_def split: option.splits)

lemma find_known_None_iff:
  "find_known lc atts ks = None \<longleftrightarrow> (\<forall>k \<in> set ks. \<not> passes_sniff lc atts k)"
  by (induction ks) (auto simp: passes_sniff_def split: option.splits)

lemma find_known_first:
  "\<forall>k' \<in> set pre. \<not> passes_sniff lc atts k' \<Longrightarrow> passes_sniff lc atts k \<Longrightarrow>
   find_known lc atts (pre @ k # post) = Some (the (map_of atts k), k)"
  by (induction pre) (auto simp: passes_sniff_def split: option.splits)

lemma find_known_map_of:
  "map_of xs = map_of ys \<Longrightarrow> find_known lc xs ks = find_known lc ys ks"
  by (induction ks) (auto split: option.splits)

lemma find_any_xml_None_iff:
  "find_any_xml lc atts = None \<longleftrightarrow> (\<forall>e \<in> set atts. \<not> xml_candidate lc e)"
  by (induction atts) (auto simp: xml_candidate_def split: if_splits)

lemma find_any_xml_first:
  "\<forall>e' \<in> set before. \<not> xml_candidate lc e' \<Longrightarrow> xml_candidate lc e \<Longrightarrow>
   find_any_xml lc (before @ e # after) = Some (snd e, fst e)"
proof (induction before)
  case Nil
  then show ?case by (cases e) (simp add: xml_candidate_def)
next
  case (Cons b before)
  then show ?case by (cases b) (auto simp: xml_candidate_def)
qed

lemma find_any_xml_Some:
  "find_any_xml lc atts = Some (d, n) \<Longrightarrow> (n, d) \<in> set atts \<and> xml_candidate lc (n, d)"
  by (induction atts) (auto simp: xml_candidate_def split: if_splits)

text \<open>
  C1. Discovery goes through \<^verbatim>\<open>KnownXMLFilenames\<close> in its order (ZUGFeRD-invoice.xml,
  zugferd-invoice.xml, factur-x.xml, xrechnung.xml, cii.xml) and returns the first of
  these names that the set holds with bytes passing the sniff predicate, whatever
  later names would match as well. A set that holds exactly zugferd-invoice.xml and
  cii.xml, both with passing bytes, gives zugferd-invoice.xml, in whichever order the
  map is visited; and in any set in which those two names pass, the result is
  zugferd-invoice.xml unless the one name listed before it, ZUGFeRD-invoice.xml, passes
  too and is returned: cii.xml is never preferred. Only when no canonical name matches
  does Discovery go through the entries and return the first it meets whose lower-cased
  name ends in \<^verbatim>\<open>.xml\<close> and whose bytes pass. When nothing matches it fails with an
  error that lists the names of all attachments.
\<close>

theorem discovery_priority:
  "KnownXMLFilenames =
     [''ZUGFeRD-invoice.xml'', ''zugferd-invoice.xml'', ''factur-x.xml'', ''xrechnung.xml'',
      ''cii.xml''] \<and>
   (\<forall>pre k post.
      KnownXMLFilenames = pre @ k # post \<and> passes_sniff lc atts k \<and>
      (\<forall>k' \<in> set pre. \<not> passes_sniff lc atts k') \<longrightarrow>
      findZUGFeRDXML lc atts = Inr (the (map_of atts k), k)) \<and>
   (\<forall>d1 d2. isZUGFeRDXML lc d1 \<and> isZUGFeRDXML lc d2 \<longrightarrow>
      findZUGFeRDXML lc [(''zugferd-invoice.xml'', d1), (''cii.xml'', d2)] =
        Inr (d1, ''zugferd-invoice.xml'') \<and>
      findZUGFeRDXML lc [(''cii.xml'', d2), (''zugferd-invoice.xml'', d1)] =
        Inr (d1, ''zugferd-invoice.xml'')) \<and>
   (passes_sniff lc atts ''zugferd-invoice.xml'' \<and> passes_sniff lc atts ''cii.xml'' \<longrightarrow>
      findZUGFeRDXML lc atts =
        (if passes_sniff lc atts ''ZUGFeRD-invoice.xml''
         then Inr (the (map_of atts ''ZUGFeRD-invoice.xml''), ''ZUGFeRD-invoice.xml'')
         else Inr (the (map_of atts ''zugferd-invoice.xml''), ''zugferd-invoice.xml''))) \<and>
   (\<forall>before e after.
      (\<forall>k \<in> set KnownXMLFilenames. \<not> passes_sniff lc atts k) \<and>
      atts = before @ e # after \<and> xml_candidate lc e \<and>
      (\<forall>e' \<in> set before. \<not> xml_candidate lc e') \<longrightarrow>
      findZUGFeRDXML lc atts = Inr (snd e, fst e)) \<and>
   ((\<forall>k \<in> set KnownXMLFilenames. \<not> passes_sniff lc atts k) \<and>
    (\<forall>e \<in> set atts. \<not> xml_candidate lc e) \<longrightarrow>
      findZUGFeRDXML lc atts = Inl (NoZUGFeRDAttachment (map fst atts)))"
proof (intro conjI allI impI)
  show "KnownXMLFilenames =
     [''ZUGFeRD-invoice.xml'', ''zugferd-invoice.xml'', ''factur-x.xml'', ''xrechnung.xml'',
      ''cii.xml'']"
    by (rule KnownXMLFilenames_def)
next
  fix pre k post
  assume a: "KnownXMLFilenames = pre @ k # post \<and> passes_sniff lc atts k \<and>
      (\<forall>k' \<in> set pre. \<not> passes_sniff lc atts k')"
  then have "find_known lc atts KnownXMLFilenames = Some (the (map_of atts k), k)"
    using find_known_first [of pre lc atts k post] by simp
  then show "findZUGFeRDXML lc atts = Inr (the (map_of atts k), k)"
    by (simp add: findZUGFeRDXML_def)
next
  fix d1 d2
  assume "isZUGFeRDXML lc d1 \<and> isZUGFeRDXML lc d2"
  then show "findZUGFeRDXML lc [(''zugferd-invoice.xml'', d1), (''cii.xml'', d2)] =
        Inr (d1, ''zugferd-invoice.xml'')"
    by (simp add: findZUGFeRDXML_def KnownXMLFilenames_def)
next
  fix d1 d2
  assume "isZUGFeRDXML lc d1 \<and> isZUGFeRDXML lc d2"
  then show "findZUGFeRDXML lc [(''cii.xml'', d2), (''zugferd-invoice.xml'', d1)] =
        Inr (d1, ''zugferd-invoice.xml'')"
    by (simp add: findZUGFeRDXML_def KnownXMLFilenames_def)
next
  assume a: "passes_sniff lc atts ''zugferd-invoice.xml'' \<and> passes_sniff lc atts ''cii.xml''"
  show "findZUGFeRDXML lc atts =
        (if passes_sniff lc atts ''ZUGFeRD-invoice.xml''
         then Inr (the (map_of atts ''ZUGFeRD-invoice.xml''), ''ZUGFeRD-invoice.xml'')
         else Inr (the (map_of atts ''zugferd-invoice.xml''), ''zugferd-invoice.xml''))"
  proof (cases "passes_sniff lc atts ''ZUGFeRD-invoice.xml''")
    case True
    have "KnownXMLFilenames = [] @ ''ZUGFeRD-invoice.xml'' #
          [''zugferd-invoice.xml'', ''factur-x.xml'', ''xrechnung.xml'', ''cii.xml'']"
      by (simp add: KnownXMLFilenames_def)
    then have "find_known lc atts KnownXMLFilenames =
        Some (the (map_of atts ''ZUGFeRD-invoice.xml''), ''ZUGFeRD-invoice.xml'')"
      using True find_known_first [of "[]" lc atts "''ZUGFeRD-invoice.xml''"
              "[''zugferd-invoice.xml'', ''factur-x.xml'', ''xrechnung.xml'', ''cii.xml'']"]
      by simp
    with True show ?thesis by (simp add: findZUGFeRDXML_def)
  next
    case False
    have "KnownXMLFilenames = [''ZUGFeRD-invoice.xml''] @ ''zugferd-invoice.xml'' #
          [''factur-x.xml'', ''xrechnung.xml'', ''cii.xml'']"
      by (simp add: KnownXMLFilenames_def)
    then have "find_known lc atts KnownXMLFilenames =
        Some (the (map_of atts ''zugferd-invoice.xml''), ''zugferd-invoice.xml'')"
      using a False find_known_first [of "[''ZUGFeRD-invoice.xml'']" lc atts
              "''zugferd-invoice.xml''" "[''factur-x.xml'', ''xrechnung.xml'', ''cii.xml'']"]
      by simp
    with False show ?thesis by (simp add: findZUGFeRDXML_def)
  qed
next
  fix before e after
  assume a: "(\<forall>k \<in> set KnownXMLFilenames. \<not> passes_sniff lc atts k) \<and>
      atts = before @ e # after \<and> xml_candidate lc e \<and>
      (\<forall>e' \<in> set before. \<not> xml_candidate lc e')"
  from a have "\<forall>k \<in> set KnownXMLFilenames. \<not> passes_sniff lc atts k"
    by (rule conjunct1)
  then have n: "find_known lc atts KnownXMLFilenames = None"
    by (simp add: find_known_None_iff)
  from a have "find_any_xml lc atts = Some (snd e, fst e)"
    using find_any_xml_first [of before lc e after] by simp
  with n show "findZUGFeRDXML lc atts = Inr (snd e, fst e)"
    by (simp add: findZUGFeRDXML_def)
next
  assume a: "(\<forall>k \<in> set KnownXMLFilenames. \<not> passes_sniff lc atts k) \<and>
    (\<forall>e \<in> set atts. \<not> xml_candidate lc e)"
  then have "find_known lc atts KnownXMLFilenames = None" "find_any_xml lc atts = None"
    by (simp_all add: find_known_None_iff find_any_xml_None_iff)
  then show "findZUGFeRDXML lc atts = Inl (NoZUGFeRDAttachment (map fst atts))"
    by (simp add: findZUGFeRDXML_def)
qed

theorem discovery_priority_witness:
  "findZUGFeRDXML ToLower two_canonical = Inr (''<zugferd 2/>'', ''zugferd-invoice.xml'') \<and>
   findZUGFeRDXML ToLower [(''zugferd-invoice.xml'', ''<zugferd 2/>''), (''cii.xml'', ''<cii zugferd/>'')] =
     Inr (''<zugferd 2/>'', ''zugferd-invoice.xml'') \<and>
   findZUGFeRDXML ToLower three_canonical = Inr (''<zugferd 1/>'', ''ZUGFeRD-invoice.xml'') \<and>
   findZUGFeRDXML ToLower two_plain = Inr (''<zugferd a/>'', ''a.xml'') \<and>
   findZUGFeRDXML ToLower mislabelled =
     Inl (NoZUGFeRDAttachment [''factur-x.xml'', ''notes.txt''])"
proof -
  note c = discovery_priority [of ToLower two_canonical]
  note h = discovery_priority [of ToLower three_canonical]
  note p = discovery_priority [of ToLower two_plain]
  note m = discovery_priority [of ToLower mislabelled]
  have pc: "passes_sniff ToLower two_canonical ''zugferd-invoice.xml''"
           "passes_sniff ToLower two_canonical ''cii.xml''"
           "\<not> passes_sniff ToLower two_canonical ''ZUGFeRD-invoice.xml''"
    by (simp_all add: passes_sniff_def two_canonical_def sniff_zugferd_examples)
  have mc: "the (map_of two_canonical ''zugferd-invoice.xml'') = ''<zugferd 2/>''"
    by (simp add: two_canonical_def)
  have "findZUGFeRDXML ToLower two_canonical =
      (if passes_sniff ToLower two_canonical ''ZUGFeRD-invoice.xml''
       then Inr (the (map_of two_canonical ''ZUGFeRD-invoice.xml''), ''ZUGFeRD-invoice.xml'')
       else Inr (the (map_of two_canonical ''zugferd-invoice.xml''), ''zugferd-invoice.xml''))"
    by (rule c [THEN conjunct2, THEN conjunct2, THEN conjunct2, THEN conjunct1, rule_format])
       (rule conjI, rule pc(1), rule pc(2))
  then have r1:
    "findZUGFeRDXML ToLower two_canonical = Inr (''<zugferd 2/>'', ''zugferd-invoice.xml'')"
    by (simp only: pc(3) if_False mc)
  have r2: "findZUGFeRDXML ToLower
        [(''zugferd-invoice.xml'', ''<zugferd 2/>''), (''cii.xml'', ''<cii zugferd/>'')] =
      Inr (''<zugferd 2/>'', ''zugferd-invoice.xml'')"
    by (rule c [THEN conjunct2, THEN conjunct2, THEN conjunct1, rule_format, THEN conjunct1])
       (rule conjI, rule sniff_zugferd_examples(2), rule sniff_zugferd_examples(3))
  have ph: "passes_sniff ToLower three_canonical ''ZUGFeRD-invoice.xml''"
    by (simp add: passes_sniff_def three_canonical_def sniff_zugferd_examples)
  have mh: "the (map_of three_canonical ''ZUGFeRD-invoice.xml'') = ''<zugferd 1/>''"
    by (simp add: three_canonical_def)
  have kh: "KnownXMLFilenames = [] @ ''ZUGFeRD-invoice.xml'' #
             [''zugferd-invoice.xml'', ''factur-x.xml'', ''xrechnung.xml'', ''cii.xml'']"
    by (simp add: KnownXMLFilenames_def)
  have "findZUGFeRDXML ToLower three_canonical =
      Inr (the (map_of three_canonical ''ZUGFeRD-invoice.xml''), ''ZUGFeRD-invoice.xml'')"
    by (rule h [THEN conjunct2, THEN conjunct1, rule_format,
              of "[]" _ "[''zugferd-invoice.xml'', ''factur-x.xml'', ''xrechnung.xml'', ''cii.xml'']"])
       (simp add: kh [simplified] ph)
  then have r3:
    "findZUGFeRDXML ToLower three_canonical = Inr (''<zugferd 1/>'', ''ZUGFeRD-invoice.xml'')"
    by (simp only: mh)
  have np: "\<forall>k \<in> set KnownXMLFilenames. \<not> passes_sniff ToLower two_plain k"
    by (simp add: KnownXMLFilenames_def passes_sniff_def two_plain_def)
  have xa: "xml_candidate ToLower (''a.xml'', ''<zugferd a/>'')"
    by (simp add: xml_candidate_def xml_suffixes sniff_zugferd_examples)
  have fallback: "findZUGFeRDXML ToLower two_plain =
      Inr (snd (''a.xml'', ''<zugferd a/>''), fst (''a.xml'', ''<zugferd a/>''))"
    by (rule p [THEN conjunct2, THEN conjunct2, THEN conjunct2, THEN conjunct2, THEN conjunct1,
              rule_format, of "[]" _ "[(''b.xml'', ''<zugferd b/>'')]"])
       (simp add: np xa, simp add: two_plain_def)
  then have r4: "findZUGFeRDXML ToLower two_plain = Inr (''<zugferd a/>'', ''a.xml'')"
    by simp
  have nm: "\<forall>k \<in> set KnownXMLFilenames. \<not> passes_sniff ToLower mislabelled k"
    by (simp add: KnownXMLFilenames_def passes_sniff_def mislabelled_def no_sniff_html)
  have xm: "\<forall>e \<in> set mislabelled. \<not> xml_candidate ToLower e"
    by (simp add: mislabelled_def xml_candidate_def no_sniff_html xml_suffixes)
  have no_match: "findZUGFeRDXML ToLower mislabelled =
      Inl (NoZUGFeRDAttachment (map fst mislabelled))"
    by (rule m [THEN conjunct2, THEN conjunct2, THEN conjunct2, THEN conjunct2, THEN conjunct2,
              rule_format])
       (simp add: nm xm)
  have names: "map fst mislabelled = [''factur-x.xml'', ''notes.txt'']"
    by (simp add: mislabelled_def)
  have r5: "findZUGFeRDXML ToLower mislabelled =
     Inl (NoZUGFeRDAttachment [''factur-x.xml'', ''notes.txt''])"
    by (simp only: no_match names)
  from r1 r2 r3 r4 r5 show ?thesis by (intro conjI)
qed

section \<open>Determinism of Discovery\<close>

lemma find_any_xml_unique:
  assumes "distinct (map fst xs)" "distinct (map fst ys)" "set xs = set ys"
    and u: "\<forall>e \<in> set xs. \<forall>e' \<in> set xs. xml_candidate lc e \<and> xml_candidate lc e' \<longrightarrow> e = e'"
  shows "find_any_xml lc xs = find_any_xml lc ys"
proof (cases "find_any_xml lc xs")
  case None
  then have "\<forall>e \<in> set ys. \<not> xml_candidate lc e"
    using assms(3) by (simp add: find_any_xml_None_iff)
  then have "find_any_xml lc ys = None" by (simp add: find_any_xml_None_iff)
  with None show ?thesis by simp
next
  case (Some f)
  obtain d n where f: "f = (d, n)" by (cases f)
  from Some f have x: "(n, d) \<in> set xs" "xml_candidate lc (n, d)"
    using find_any_xml_Some [of lc xs d n] by simp_all
  have "find_any_xml lc ys \<noteq> None"
    using x assms(3) by (auto simp: find_any_xml_None_iff)
  then obtain d' n' where y: "find_any_xml lc ys = Some (d', n')" by auto
  then have "(n', d') \<in> set xs" "xml_candidate lc (n', d')"
    using find_any_xml_Some [of lc ys d' n'] assms(3) by simp_all
  with x u have "(n', d') = (n, d)" by blast
  with y Some f show ?thesis by simp
qed

text \<open>
  C3, with a proviso. Two invocations of Discovery on one attachment set are two visits
  of the same map: two lists with distinct keys and the same entries. Both succeed or
  both fail. They return the same candidate whenever a canonical name passes the sniff
  predicate or at most one entry is a \<^verbatim>\<open>.xml\<close> candidate. Which candidate is returned
  is not fixed when no canonical name matches and two or more \<^verbatim>\<open>.xml\<close> entries pass.
\<close>

theorem discovery_deterministic_when_unambiguous:
  assumes "distinct (map fst xs)" and "distinct (map fst ys)" and "set xs = set ys"
  shows "((\<exists>candidate. findZUGFeRDXML lc xs = Inr candidate) \<longleftrightarrow>
          (\<exists>candidate. findZUGFeRDXML lc ys = Inr candidate)) \<and>
         ((\<exists>k \<in> set KnownXMLFilenames. passes_sniff lc xs k) \<or>
          (\<forall>e \<in> set xs. \<forall>e' \<in> set xs. xml_candidate lc e \<and> xml_candidate lc e' \<longrightarrow> e = e') \<longrightarrow>
          (\<forall>candidate. findZUGFeRDXML lc xs = Inr candidate \<longleftrightarrow>
                       findZUGFeRDXML lc ys = Inr candidate))"
proof
  have m: "map_of xs = map_of ys"
    using assms by (simp add: map_of_inject_set)
  then have k: "find_known lc xs KnownXMLFilenames = find_known lc ys KnownXMLFilenames"
    by (rule find_known_map_of)
  have n: "find_any_xml lc xs = None \<longleftrightarrow> find_any_xml lc ys = None"
    using assms(3) by (simp add: find_any_xml_None_iff)
  show "(\<exists>candidate. findZUGFeRDXML lc xs = Inr candidate) \<longleftrightarrow>
        (\<exists>candidate. findZUGFeRDXML lc ys = Inr candidate)"
    using k n by (auto simp: findZUGFeRDXML_def split: option.splits)
  show "(\<exists>k \<in> set KnownXMLFilenames. passes_sniff lc xs k) \<or>
        (\<forall>e \<in> set xs. \<forall>e' \<in> set xs. xml_candidate lc e \<and> xml_candidate lc e' \<longrightarrow> e = e') \<longrightarrow>
        (\<forall>candidate. findZUGFeRDXML lc xs = Inr candidate \<longleftrightarrow>
                     findZUGFeRDXML lc ys = Inr candidate)"
  proof
    assume a: "(\<exists>k \<in> set KnownXMLFilenames. passes_sniff lc xs k) \<or>
        (\<forall>e \<in> set xs. \<forall>e' \<in> set xs. xml_candidate lc e \<and> xml_candidate lc e' \<longrightarrow> e = e')"
    show "\<forall>candidate. findZUGFeRDXML lc xs = Inr candidate \<longleftrightarrow>
                     findZUGFeRDXML lc ys = Inr candidate"
    proof (cases "find_known lc xs KnownXMLFilenames")
      case (Some f)
      with k have ky: "find_known lc ys KnownXMLFilenames = Some f" by simp
      show ?thesis by (simp add: findZUGFeRDXML_def Some ky)
    next
      case None
      then have "\<forall>k \<in> set KnownXMLFilenames. \<not> passes_sniff lc xs k"
        by (simp add: find_known_None_iff)
      with a
      have "\<forall>e \<in> set xs. \<forall>e' \<in> set xs. xml_candidate lc e \<and> xml_candidate lc e' \<longrightarrow> e = e'"
        by blast
      then have "find_any_xml lc xs = find_any_xml lc ys"
        using assms by (intro find_any_xml_unique)
      with None k show ?thesis
        by (auto simp: findZUGFeRDXML_def split: option.splits)
    qed
  qed
qed

theorem discovery_deterministic_witness:
  "findZUGFeRDXML ToLower two_canonical_other_visit =
     Inr (''<zugferd 2/>'', ''zugferd-invoice.xml'') \<and>
   findZUGFeRDXML ToLower one_plain_other_visit = Inr (''<zugferd a/>'', ''a.xml'') \<and>
   (\<exists>candidate. findZUGFeRDXML ToLower two_plain_other_visit = Inr candidate)"
proof -
  have d: "distinct (map fst two_canonical)" "distinct (map fst two_canonical_other_visit)"
    by (simp_all add: two_canonical_def two_canonical_other_visit_def)
  have s: "set two_canonical = set two_canonical_other_visit"
    by (simp add: two_canonical_def two_canonical_other_visit_def insert_commute)
  have "passes_sniff ToLower two_canonical ''cii.xml''"
    by (simp add: passes_sniff_def two_canonical_def sniff_zugferd_examples)
  moreover have "''cii.xml'' \<in> set KnownXMLFilenames"
    by (simp add: KnownXMLFilenames_def)
  ultimately have k: "\<exists>k \<in> set KnownXMLFilenames. passes_sniff ToLower two_canonical k"
    by (rule_tac bexI)
  have f: "findZUGFeRDXML ToLower two_canonical = Inr (''<zugferd 2/>'', ''zugferd-invoice.xml'')"
    by (simp add: findZUGFeRDXML_def KnownXMLFilenames_def two_canonical_def
          sniff_zugferd_examples)
  note t = discovery_deterministic_when_unambiguous [OF d s, of ToLower, THEN conjunct2,
             THEN mp, OF disjI1 [OF k], rule_format]
  from f have canonical: "findZUGFeRDXML ToLower two_canonical_other_visit =
     Inr (''<zugferd 2/>'', ''zugferd-invoice.xml'')"
    by (rule t [THEN iffD1])
  have d': "distinct (map fst one_plain)" "distinct (map fst one_plain_other_visit)"
    by (simp_all add: one_plain_def one_plain_other_visit_def)
  have s': "set one_plain = set one_plain_other_visit"
    by (simp add: one_plain_def one_plain_other_visit_def insert_commute)
  have u: "\<forall>e \<in> set one_plain. \<forall>e' \<in> set one_plain.
             xml_candidate ToLower e \<and> xml_candidate ToLower e' \<longrightarrow> e = e'"
    by (simp add: one_plain_def xml_candidate_def xml_suffixes)
  have f': "findZUGFeRDXML ToLower one_plain = Inr (''<zugferd a/>'', ''a.xml'')"
    by (simp add: findZUGFeRDXML_def KnownXMLFilenames_def one_plain_def xml_suffixes
          sniff_zugferd_examples)
  note t' = discovery_deterministic_when_unambiguous [OF d' s', of ToLower, THEN conjunct2,
              THEN mp, OF disjI2 [OF u], rule_format]
  from f' have single: "findZUGFeRDXML ToLower one_plain_other_visit =
     Inr (''<zugferd a/>'', ''a.xml'')"
    by (rule t' [THEN iffD1])
  have d'': "distinct (map fst two_plain)" "distinct (map fst two_plain_other_visit)"
    by (simp_all add: two_plain_def two_plain_other_visit_def)
  have s'': "set two_plain = set two_plain_other_visit"
    by (simp add: two_plain_def two_plain_other_visit_def insert_commute)
  have f'': "\<exists>candidate. findZUGFeRDXML ToLower two_plain = Inr candidate"
    by (simp add: findZUGFeRDXML_def KnownXMLFilenames_def two_plain_def xml_suffixes
          sniff_zugferd_examples)
  note t'' = discovery_deterministic_when_unambiguous [OF d'' s'', of ToLower, THEN conjunct1]
  from f'' have both: "\<exists>candidate. findZUGFeRDXML ToLower two_plain_other_visit = Inr candidate"
    by (rule t'' [THEN iffD1])
  from canonical single both show ?thesis by (intro conjI)
qed

text \<open>
  C3 without the proviso: with two plain \<^verbatim>\<open>.xml\<close> attachments that both pass and no
  canonical name, the candidate is whichever the visit of the map meets first, so two
  invocations on the same set return different candidates.
\<close>

theorem discovery_order_counterexample:
  "distinct (map fst two_plain) \<and> distinct (map fst two_plain_other_visit) \<and>
   set two_plain = set two_plain_other_visit \<and>
   findZUGFeRDXML ToLower two_plain = Inr (''<zugferd a/>'', ''a.xml'') \<and>
   findZUGFeRDXML ToLower two_plain_other_visit = Inr (''<zugferd b/>'', ''b.xml'')"
proof -
  have x: "HasSuffix (ToLower ''a.xml'') ''.xml''" "HasSuffix (ToLower ''b.xml'') ''.xml''"
    by (simp_all add: HasSuffix_def ToLower_def lower_byte_def)
  have "set two_plain = set two_plain_other_visit"
    by (simp add: two_plain_def two_plain_other_visit_def insert_commute)
  moreover have "findZUGFeRDXML ToLower two_plain = Inr (''<zugferd a/>'', ''a.xml'')"
    by (simp add: findZUGFeRDXML_def KnownXMLFilenames_def two_plain_def x
          sniff_zugferd_examples)
  moreover have "findZUGFeRDXML ToLower two_plain_other_visit = Inr (''<zugferd b/>'', ''b.xml'')"
    by (simp add: findZUGFeRDXML_def KnownXMLFilenames_def two_plain_other_visit_def x
          sniff_zugferd_examples)
  moreover have "distinct (map fst two_plain)" "distinct (map fst two_plain_other_visit)"
    by (simp_all add: two_plain_def two_plain_other_visit_def)
  ultimately show ?thesis by (intro conjI)
qed

section \<open>The manual byte-scan strategy\<close>

lemma occurs_at_Cons_0: "occurs_at p (c # s) 0 \<longleftrightarrow> HasPrefix (c # s) p"
  by (auto simp: occurs_at_def HasPrefix_def)

lemma occurs_at_Cons_Suc: "occurs_at p (c # s) (Suc j) \<longleftrightarrow> occurs_at p s j"
  by (simp add: occurs_at_def)

lemma occurs_at_Nil: "occurs_at p [] j \<longleftrightarrow> p = [] \<and> j = 0"
  by (auto simp: occurs_at_def)

lemma Index_absent: "Index s p = - 1 \<Longrightarrow> \<not> occurs_at p s j"
proof (induction s arbitrary: j)
  case Nil
  then show ?case by (auto simp: occurs_at_Nil split: if_splits)
next
  case (Cons c s)
  from Cons.prems have h: "\<not> HasPrefix (c # s) p" and i: "Index s p = - 1"
    using Index_ge [of s p] by (auto simp: Let_def split: if_splits)
  show ?case
  proof (cases j)
    case 0
    with h show ?thesis by (simp add: occurs_at_Cons_0)
  next
    case (Suc k)
    with Cons.IH [OF i] show ?thesis by (simp add: occurs_at_Cons_Suc)
  qed
qed

lemma Index_first:
  "Index s p \<noteq> - 1 \<Longrightarrow>
   0 \<le> Index s p \<and> occurs_at p s (nat (Index s p)) \<and>
   (\<forall>j. occurs_at p s j \<longrightarrow> nat (Index s p) \<le> j)"
proof (induction s)
  case Nil
  then show ?case by (auto simp: occurs_at_Nil split: if_splits)
next
  case (Cons c s)
  show ?case
  proof (cases "HasPrefix (c # s) p")
    case True
    then show ?thesis by (simp add: occurs_at_Cons_0)
  next
    case False
    with Cons.prems have i: "Index s p \<noteq> - 1"
      by (auto simp: Let_def split: if_splits)
    from Cons.IH [OF i] have ih: "0 \<le> Index s p" "occurs_at p s (nat (Index s p))"
      "\<And>j. occurs_at p s j \<Longrightarrow> nat (Index s p) \<le> j" by auto
    from False ih(1) have e: "Index (c # s) p = Index s p + 1"
      by (simp add: Let_def)
    have n: "nat (Index s p + 1) = Suc (nat (Index s p))"
      using ih(1) by simp
    have least: "nat (Index (c # s) p) \<le> j" if "occurs_at p (c # s) j" for j
    proof (cases j)
      case 0
      with that False show ?thesis by (simp add: occurs_at_Cons_0)
    next
      case (Suc k)
      with that have "occurs_at p s k" by (simp add: occurs_at_Cons_Suc)
      then have "nat (Index s p) \<le> k" by (rule ih(3))
      with Suc show ?thesis unfolding e n by simp
    qed
    have "occurs_at p (c # s) (nat (Index (c # s) p))"
      unfolding e n using ih(2) by (simp add: occurs_at_Cons_Suc)
    moreover have "0 \<le> Index (c # s) p"
      unfolding e using ih(1) by simp
    ultimately show ?thesis
      using least by blast
  qed
qed

lemma scan_endPatterns_le: "scan_endPatterns content ps e \<le> e"
proof (induction ps arbitrary: e)
  case Nil
  then show ?case by simp
next
  case (Cons p ps)
  show ?case
    using Cons.IH [of e] Cons.IH [of "Index content p + int (length p)"]
    by (auto simp: Let_def)
qed

lemma scan_endPatterns_lower:
  "p \<in> set ps \<Longrightarrow> Index content p \<noteq> - 1 \<Longrightarrow>
   scan_endPatterns content ps e \<le> Index content p + int (length p)"
proof (induction ps arbitrary: e)
  case Nil
  then show ?case by simp
next
  case (Cons q ps)
  show ?case
  proof (cases "p = q")
    case True
    then show ?thesis
      using Cons.prems(2) scan_endPatterns_le [of content ps e]
        scan_endPatterns_le [of content ps "Index content q + int (length q)"]
      by (auto simp: Let_def)
  next
    case False
    with Cons.prems have "p \<in> set ps" by simp
    from Cons.IH [OF this Cons.prems(2)] show ?thesis
      by (auto simp: Let_def)
  qed
qed

lemma scan_endPatterns_result:
  "scan_endPatterns content ps e = e \<or>
   (\<exists>p \<in> set ps. Index content p \<noteq> - 1 \<and>
      scan_endPatterns content ps e = Index content p + int (length p))"
proof (induction ps arbitrary: e)
  case Nil
  then show ?case by simp
next
  case (Cons q ps)
  show ?case
    using Cons.IH [of e] Cons.IH [of "Index content q + int (length q)"]
    by (auto simp: Let_def)
qed

lemma extractXMLFromPosition_nonempty:
  assumes "extractXMLFromPosition data startPos \<noteq> []"
  shows "0 \<le> startPos \<and> startPos < int (length data) \<and>
     (\<exists>p \<in> set endPatterns. \<exists>i.
        occurs_at p (drop (nat startPos) data) i \<and>
        extractXMLFromPosition data startPos = take (i + length p) (drop (nat startPos) data) \<and>
        (\<forall>q \<in> set endPatterns. \<forall>j.
           occurs_at q (drop (nat startPos) data) j \<longrightarrow> i + length p \<le> j + length q))"
proof -
  define content where "content = drop (nat startPos) data"
  define e where "e = scan_endPatterns content endPatterns (int (length content))"
  from assms have r: "0 \<le> startPos" "startPos < int (length data)"
    by (auto simp: extractXMLFromPosition_def split: if_splits)
  with assms have lt: "e < int (length content)"
    and x: "extractXMLFromPosition data startPos = take (nat e) content"
    by (auto simp: extractXMLFromPosition_def Let_def content_def e_def split: if_splits)
  from lt scan_endPatterns_result [of content endPatterns "int (length content)"]
  obtain p where p: "p \<in> set endPatterns" "Index content p \<noteq> - 1"
    "e = Index content p + int (length p)"
    by (auto simp: e_def)
  define i where "i = nat (Index content p)"
  from Index_first [OF p(2)] have f: "0 \<le> Index content p" "occurs_at p content i"
    by (simp_all add: i_def)
  have ne: "nat e = i + length p"
    using p(3) f(1) by (simp add: i_def nat_add_distrib)
  have least: "i + length p \<le> j + length q"
    if q: "q \<in> set endPatterns" and o: "occurs_at q content j" for q j
  proof -
    from o have qi: "Index content q \<noteq> - 1"
      using Index_absent [of content q j] by blast
    from Index_first [OF qi] o have "0 \<le> Index content q" "nat (Index content q) \<le> j"
      by auto
    moreover have "e \<le> Index content q + int (length q)"
      unfolding e_def by (rule scan_endPatterns_lower [OF q qi])
    ultimately show ?thesis
      using ne by linarith
  qed
  show ?thesis
    using r p(1) f(2) x ne least unfolding content_def [symmetric] by auto
qed

lemma extractXMLFromPosition_found:
  assumes "0 \<le> startPos" "startPos < int (length data)"
    and "p \<in> set endPatterns" "occurs_at p (drop (nat startPos) data) i"
    and "i + length p < length (drop (nat startPos) data)"
  shows "extractXMLFromPosition data startPos \<noteq> []"
proof -
  define content where "content = drop (nat startPos) data"
  define e where "e = scan_endPatterns content endPatterns (int (length content))"
  from assms(4) have qi: "Index content p \<noteq> - 1"
    using Index_absent [of content p i] by (auto simp: content_def)
  from Index_first [OF qi] assms(4)
  have "0 \<le> Index content p" "nat (Index content p) \<le> i"
    by (auto simp: content_def)
  moreover have "e \<le> Index content p + int (length p)"
    unfolding e_def by (rule scan_endPatterns_lower [OF assms(3) qi])
  ultimately have lt: "e < int (length content)"
    using assms(5) unfolding content_def by linarith
  from scan_endPatterns_result [of content endPatterns "int (length content)"] lt
  obtain q where q: "q \<in> set endPatterns" "Index content q \<noteq> - 1"
    "e = Index content q + int (length q)"
    by (auto simp: e_def)
  have "q \<noteq> []"
    using q(1) by (auto simp: endPatterns_def)
  moreover from Index_first [OF q(2)] have "0 \<le> Index content q" by simp
  ultimately have pos: "0 < e"
    using q(3) by (cases q) auto
  have "extractXMLFromPosition data startPos = take (nat e) content"
    using assms(1,2) lt
    by (simp add: extractXMLFromPosition_def Let_def content_def e_def)
  moreover have "take (nat e) content \<noteq> []"
    using pos lt by auto
  ultimately show ?thesis by simp
qed

lemma set_update_subset: "set (AList.update k v al) \<subseteq> insert (k, v) (set al)"
  by (induction al) auto

lemma scan_startPatterns_entries:
  "(name, slice) \<in> set (scan_startPatterns lc data ps acc) \<Longrightarrow>
   (name, slice) \<in> set acc \<or>
   (isZUGFeRDXML lc slice \<and>
    (\<exists>sp \<in> set ps. Index data sp \<noteq> - 1 \<and> slice = extractXMLFromPosition data (Index data sp)))"
proof (induction ps arbitrary: acc)
  case Nil
  then show ?case by simp
next
  case (Cons p ps)
  let ?x = "extractXMLFromPosition data (Index data p)"
  show ?case
  proof (cases "Index data p \<noteq> - 1 \<and> length ?x > 0 \<and> isZUGFeRDXML lc ?x")
    case True
    with Cons.prems
    have "(name, slice) \<in> set (scan_startPatterns lc data ps
            (AList.update (guessXMLFilename lc ?x) ?x acc))"
      by (simp add: Let_def)
    from Cons.IH [OF this] show ?thesis
    proof
      assume "(name, slice) \<in> set (AList.update (guessXMLFilename lc ?x) ?x acc)"
      then have "(name, slice) = (guessXMLFilename lc ?x, ?x) \<or> (name, slice) \<in> set acc"
        using set_update_subset [of "guessXMLFilename lc ?x" ?x acc] by blast
      with True show ?thesis by auto
    next
      assume "isZUGFeRDXML lc slice \<and>
        (\<exists>sp \<in> set ps. Index data sp \<noteq> - 1 \<and> slice = extractXMLFromPosition data (Index data sp))"
      then show ?thesis by auto
    qed
  next
    case False
    with Cons.prems have "(name, slice) \<in> set (scan_startPatterns lc data ps acc)"
      by (auto simp: Let_def split: if_splits)
    from Cons.IH [OF this] show ?thesis by auto
  qed
qed

lemma extractAttachmentsManual_entries:
  assumes "extractAttachmentsManual lc c = Inr atts" "(name, slice) \<in> set atts"
  shows "isZUGFeRDXML lc slice \<and>
     (\<exists>raw. ReadAll_result c = Some raw \<and>
        (\<exists>sp \<in> set xmlStartPatterns. Index raw sp \<noteq> - 1 \<and>
           slice = extractXMLFromPosition raw (Index raw sp)))"
proof -
  from assms(1) obtain raw where raw: "ReadAll_result c = Some raw"
    and a: "atts = scan_startPatterns lc raw xmlStartPatterns []"
    by (auto simp: extractAttachmentsManual_def Let_def split: if_splits option.splits)
  from assms(2) a scan_startPatterns_entries [of name slice lc raw xmlStartPatterns "[]"]
  have "isZUGFeRDXML lc slice \<and>
    (\<exists>sp \<in> set xmlStartPatterns. Index raw sp \<noteq> - 1 \<and>
       slice = extractXMLFromPosition raw (Index raw sp))"
    by simp
  with raw show ?thesis by blast
qed

lemma mixed_families_slice:
  "extractXMLFromPosition mixed_families 1 = ''<rsm:CrossIndustryInvoice>a</CrossIndustryInvoice>''"
  by (simp add: extractXMLFromPosition_def mixed_families_def endPatterns_def Let_def
        HasPrefix_def)

lemma guess_slice:
  "guessXMLFilename ToLower ''<rsm:CrossIndustryInvoice>a</CrossIndustryInvoice>'' = ''invoice.xml''"
  by (simp add: guessXMLFilename_def ToLower_def lower_byte_def Contains_def HasPrefix_def)

lemma mixed_families_starts:
  "Index mixed_families (''<?xml version='' @ [CHR 0x22] @ ''1.0'' @ [CHR 0x22]) = - 1"
  "Index mixed_families ''<rsm:CrossIndustryDocument'' = - 1"
  "Index mixed_families ''<rsm:CrossIndustryInvoice'' = 1"
  by (simp_all add: mixed_families_def HasPrefix_def)

lemma manual_only_raw_bytes:
  "extractAttachmentsManual ToLower only_raw_bytes =
     Inr [(''invoice.xml'', ''<rsm:CrossIndustryInvoice>a</CrossIndustryInvoice>'')]"
proof -
  have "scan_startPatterns ToLower mixed_families xmlStartPatterns [] =
      [(''invoice.xml'', ''<rsm:CrossIndustryInvoice>a</CrossIndustryInvoice>'')]"
    unfolding xmlStartPatterns_def
    by (simp add: mixed_families_starts mixed_families_slice sniff_slice guess_slice
          del: append.simps)
  then show ?thesis
    by (simp add: extractAttachmentsManual_def only_raw_bytes_def)
qed

lemma rejected_twice:
  "extractAttachmentsStandard only_raw_bytes = Inl PdfcpuError"
  "extractAttachmentsRelaxed only_raw_bytes = Inl RelaxedPdfcpuError"
  by (simp_all add: extractAttachmentsStandard_def extractAttachmentsRelaxed_def
        only_raw_bytes_def run_rejected_def)

lemma extractXMLFromPosition_lost:
  assumes "\<forall>q \<in> set endPatterns. \<forall>j.
      occurs_at q (drop (nat startPos) data) j \<longrightarrow>
      \<not> j + length q < length (drop (nat startPos) data)"
  shows "extractXMLFromPosition data startPos = []"
proof (cases "startPos < 0 \<or> startPos \<ge> int (length data)")
  case True
  then show ?thesis by (auto simp: extractXMLFromPosition_def)
next
  case False
  define content where "content = drop (nat startPos) data"
  define e where "e = scan_endPatterns content endPatterns (int (length content))"
  have "\<not> e < int (length content)"
  proof
    assume lt: "e < int (length content)"
    from scan_endPatterns_result [of content endPatterns "int (length content)"] lt
    obtain q where q: "q \<in> set endPatterns" "Index content q \<noteq> - 1"
      "e = Index content q + int (length q)"
      by (auto simp: e_def)
    from Index_first [OF q(2)]
    have f: "0 \<le> Index content q" "occurs_at q content (nat (Index content q))"
      by simp_all
    from assms q(1) f(2)
    have "\<not> nat (Index content q) + length q < length content"
      unfolding content_def by blast
    with lt q(3) f(1) show False by linarith
  qed
  with False show ?thesis
    by (simp add: extractXMLFromPosition_def Let_def content_def e_def)
qed

lemma tag_at_end_facts:
  "occurs_at ''</rsm:CrossIndustryInvoice>'' (drop (nat 1) tag_at_end) 27"
  "27 + length ''</rsm:CrossIndustryInvoice>'' = length (drop (nat 1) tag_at_end)"
  "''</rsm:CrossIndustryInvoice>'' \<in> set endPatterns"
  "(0::int) \<le> 1" "(1::int) < int (length tag_at_end)"
  by (simp_all add: occurs_at_def tag_at_end_def endPatterns_def)

lemma tag_at_end_starts:
  "Index tag_at_end (''<?xml version='' @ [CHR 0x22] @ ''1.0'' @ [CHR 0x22]) = - 1"
  "Index tag_at_end ''<rsm:CrossIndustryDocument'' = - 1"
  "Index tag_at_end ''<rsm:CrossIndustryInvoice'' = 1"
  by (simp_all add: tag_at_end_def HasPrefix_def)

lemma tag_at_end_slice: "extractXMLFromPosition tag_at_end 1 = []"
  by (simp add: extractXMLFromPosition_def tag_at_end_def endPatterns_def Let_def
        HasPrefix_def)

lemma tag_at_end_earliest:
  "\<forall>q \<in> set endPatterns. \<forall>j.
     occurs_at q (drop (nat 1) tag_at_end) j \<longrightarrow>
     27 + length ''</rsm:CrossIndustryInvoice>'' \<le> j + length q"
proof -
  have i: "Index (drop (nat 1) tag_at_end) ''</rsm:CrossIndustryDocument>'' = - 1"
    "Index (drop (nat 1) tag_at_end) ''</rsm:CrossIndustryInvoice>'' = 27"
    "Index (drop (nat 1) tag_at_end) ''</CrossIndustryDocument>'' = - 1"
    "Index (drop (nat 1) tag_at_end) ''</CrossIndustryInvoice>'' = - 1"
    by (simp_all add: tag_at_end_def HasPrefix_def)
  have a: "\<forall>j. occurs_at ''</rsm:CrossIndustryDocument>'' (drop (nat 1) tag_at_end) j \<longrightarrow>
      27 + length ''</rsm:CrossIndustryInvoice>'' \<le> j + length ''</rsm:CrossIndustryDocument>''"
    using Index_absent [OF i(1)] by blast
  have "Index (drop (nat 1) tag_at_end) ''</rsm:CrossIndustryInvoice>'' \<noteq> - 1"
    unfolding i(2) by simp
  from Index_first [OF this, THEN conjunct2, THEN conjunct2]
  have "\<forall>j. occurs_at ''</rsm:CrossIndustryInvoice>'' (drop (nat 1) tag_at_end) j \<longrightarrow> 27 \<le> j"
    unfolding i(2) by simp
  then have b: "\<forall>j. occurs_at ''</rsm:CrossIndustryInvoice>'' (drop (nat 1) tag_at_end) j \<longrightarrow>
      27 + length ''</rsm:CrossIndustryInvoice>'' \<le> j + length ''</rsm:CrossIndustryInvoice>''"
    by simp
  have c: "\<forall>j. occurs_at ''</CrossIndustryDocument>'' (drop (nat 1) tag_at_end) j \<longrightarrow>
      27 + length ''</rsm:CrossIndustryInvoice>'' \<le> j + length ''</CrossIndustryDocument>''"
    using Index_absent [OF i(3)] by blast
  have d: "\<forall>j. occurs_at ''</CrossIndustryInvoice>'' (drop (nat 1) tag_at_end) j \<longrightarrow>
      27 + length ''</rsm:CrossIndustryInvoice>'' \<le> j + length ''</CrossIndustryInvoice>''"
    using Index_absent [OF i(4)] by blast
  show ?thesis
    unfolding endPatterns_def Ball_set list.pred_inject
    by (intro conjI a b c d list.pred_inject(1))
qed

lemma sniff_tag_at_end:
  "isZUGFeRDXML ToLower ''<rsm:CrossIndustryInvoice>a</rsm:CrossIndustryInvoice>''"
  by (rule sniff_by_indicator [where i = "''crossindustryinvoice''"])
     (simp_all add: indicators_def ToLower_def lower_byte_def Contains_def HasPrefix_def)

lemma manual_tag_at_end:
  "extractAttachmentsManual ToLower only_raw_tag_at_end = Inl ManualFoundNothing"
proof -
  have "scan_startPatterns ToLower tag_at_end xmlStartPatterns [] = []"
    unfolding xmlStartPatterns_def
    by (simp add: tag_at_end_starts tag_at_end_slice del: append.simps)
  then show ?thesis
    by (simp add: extractAttachmentsManual_def only_raw_tag_at_end_def)
qed

text \<open>
  C7. For a start position, \<^verbatim>\<open>extractXMLFromPosition\<close> returns a slice exactly when
  one of the four closing tags occurs after the start and ends before the last byte of
  the data; the slice then runs from the start to the end of the closing tag with the
  minimum end offset over all four patterns, whatever the start marker was. When the
  earliest closing tag ends with the data, so that no byte follows it, the code
  diverges from the specified behaviour: the running \<^verbatim>\<open>endPos\<close> cannot drop below its
  initial value,
  the length of the data, which also stands for "no closing tag found", and the
  function returns nil where the specification has the slice end at that closing tag,
  inclusive. On raw bytes that end with the closing tag the manual strategy therefore
  finds nothing, although the slice up to that tag passes the sniff predicate; with one
  more byte after the tag the same slice is extracted.
\<close>

theorem closing_tag_at_end_of_data_is_lost:
  "(extractXMLFromPosition data startPos \<noteq> [] \<longleftrightarrow>
      0 \<le> startPos \<and> startPos < int (length data) \<and>
      (\<exists>p \<in> set endPatterns. \<exists>i.
         occurs_at p (drop (nat startPos) data) i \<and>
         i + length p < length (drop (nat startPos) data))) \<and>
   (extractXMLFromPosition data startPos \<noteq> [] \<longrightarrow>
      (\<exists>p \<in> set endPatterns. \<exists>i.
         occurs_at p (drop (nat startPos) data) i \<and>
         extractXMLFromPosition data startPos = take (i + length p) (drop (nat startPos) data) \<and>
         (\<forall>q \<in> set endPatterns. \<forall>j.
            occurs_at q (drop (nat startPos) data) j \<longrightarrow> i + length p \<le> j + length q))) \<and>
   (0 \<le> startPos \<and> startPos < int (length data) \<and>
    p \<in> set endPatterns \<and> occurs_at p (drop (nat startPos) data) i \<and>
    i + length p = length (drop (nat startPos) data) \<and>
    (\<forall>q \<in> set endPatterns. \<forall>j.
       occurs_at q (drop (nat startPos) data) j \<longrightarrow> i + length p \<le> j + length q) \<longrightarrow>
      extractXMLFromPosition data startPos = [] \<and>
      take (i + length p) (drop (nat startPos) data) \<noteq> [])"
proof (intro conjI impI iffI)
  assume a: "extractXMLFromPosition data startPos \<noteq> []"
  note r = extractXMLFromPosition_nonempty [OF a]
  from r show "0 \<le> startPos" by (rule conjunct1)
  from r show "startPos < int (length data)" by (elim conjE)
  show "\<exists>p \<in> set endPatterns. \<exists>i.
         occurs_at p (drop (nat startPos) data) i \<and>
         i + length p < length (drop (nat startPos) data)"
  proof (rule ccontr)
    assume "\<not> (\<exists>p \<in> set endPatterns. \<exists>i.
         occurs_at p (drop (nat startPos) data) i \<and>
         i + length p < length (drop (nat startPos) data))"
    then have "\<forall>q \<in> set endPatterns. \<forall>j.
      occurs_at q (drop (nat startPos) data) j \<longrightarrow>
      \<not> j + length q < length (drop (nat startPos) data)"
      by blast
    from extractXMLFromPosition_lost [OF this] a show False by simp
  qed
next
  assume "0 \<le> startPos \<and> startPos < int (length data) \<and>
      (\<exists>p \<in> set endPatterns. \<exists>i.
         occurs_at p (drop (nat startPos) data) i \<and>
         i + length p < length (drop (nat startPos) data))"
  then obtain p i where "0 \<le> startPos" "startPos < int (length data)" "p \<in> set endPatterns"
    "occurs_at p (drop (nat startPos) data) i" "i + length p < length (drop (nat startPos) data)"
    by blast
  then show "extractXMLFromPosition data startPos \<noteq> []"
    by (rule extractXMLFromPosition_found)
next
  assume a: "extractXMLFromPosition data startPos \<noteq> []"
  from extractXMLFromPosition_nonempty [OF a]
  show "\<exists>p \<in> set endPatterns. \<exists>i.
         occurs_at p (drop (nat startPos) data) i \<and>
         extractXMLFromPosition data startPos = take (i + length p) (drop (nat startPos) data) \<and>
         (\<forall>q \<in> set endPatterns. \<forall>j.
            occurs_at q (drop (nat startPos) data) j \<longrightarrow> i + length p \<le> j + length q)"
    by (elim conjE)
next
  assume a: "0 \<le> startPos \<and> startPos < int (length data) \<and>
    p \<in> set endPatterns \<and> occurs_at p (drop (nat startPos) data) i \<and>
    i + length p = length (drop (nat startPos) data) \<and>
    (\<forall>q \<in> set endPatterns. \<forall>j.
       occurs_at q (drop (nat startPos) data) j \<longrightarrow> i + length p \<le> j + length q)"
  from a have e: "i + length p = length (drop (nat startPos) data)"
    by (elim conjE)
  from a have least: "\<forall>q \<in> set endPatterns. \<forall>j.
       occurs_at q (drop (nat startPos) data) j \<longrightarrow> i + length p \<le> j + length q"
    by (elim conjE)
  from least have "\<forall>q \<in> set endPatterns. \<forall>j.
      occurs_at q (drop (nat startPos) data) j \<longrightarrow>
      \<not> j + length q < length (drop (nat startPos) data)"
    unfolding e by (simp add: not_less)
  then show "extractXMLFromPosition data startPos = []"
    by (rule extractXMLFromPosition_lost)
next
  assume a: "0 \<le> startPos \<and> startPos < int (length data) \<and>
    p \<in> set endPatterns \<and> occurs_at p (drop (nat startPos) data) i \<and>
    i + length p = length (drop (nat startPos) data) \<and>
    (\<forall>q \<in> set endPatterns. \<forall>j.
       occurs_at q (drop (nat startPos) data) j \<longrightarrow> i + length p \<le> j + length q)"
  from a have r: "0 \<le> startPos" by (elim conjE)
  from a have l: "startPos < int (length data)" by (elim conjE)
  from a have e: "i + length p = length (drop (nat startPos) data)" by (elim conjE)
  from r l show "take (i + length p) (drop (nat startPos) data) \<noteq> []"
    unfolding e by simp
qed

theorem closing_tag_at_end_of_data_witness:
  "Index tag_at_end ''<rsm:CrossIndustryInvoice'' = 1 \<and>
   occurs_at ''</rsm:CrossIndustryInvoice>'' (drop (nat 1) tag_at_end) 27 \<and>
   27 + length ''</rsm:CrossIndustryInvoice>'' = length (drop (nat 1) tag_at_end) \<and>
   take (27 + length ''</rsm:CrossIndustryInvoice>'') (drop (nat 1) tag_at_end) =
     ''<rsm:CrossIndustryInvoice>a</rsm:CrossIndustryInvoice>'' \<and>
   isZUGFeRDXML ToLower ''<rsm:CrossIndustryInvoice>a</rsm:CrossIndustryInvoice>'' \<and>
   extractXMLFromPosition tag_at_end 1 = [] \<and>
   extractAttachmentsManual ToLower only_raw_tag_at_end = Inl ManualFoundNothing \<and>
   extractXMLFromPosition (tag_at_end @ ''.'') 1 =
     ''<rsm:CrossIndustryInvoice>a</rsm:CrossIndustryInvoice>'' \<and>
   extractAttachmentsManual ToLower only_raw_bytes =
     Inr [(''invoice.xml'', ''<rsm:CrossIndustryInvoice>a</CrossIndustryInvoice>'')]"
proof -
  note t = closing_tag_at_end_of_data_is_lost
    [of tag_at_end 1 "''</rsm:CrossIndustryInvoice>''" 27]
  have lost: "extractXMLFromPosition tag_at_end 1 = [] \<and>
      take (27 + length ''</rsm:CrossIndustryInvoice>'') (drop (nat 1) tag_at_end) \<noteq> []"
    by (rule t [THEN conjunct2, THEN conjunct2, rule_format])
       (intro conjI tag_at_end_facts tag_at_end_earliest)
  have expected:
    "take (27 + length ''</rsm:CrossIndustryInvoice>'') (drop (nat 1) tag_at_end) =
     ''<rsm:CrossIndustryInvoice>a</rsm:CrossIndustryInvoice>''"
    by (simp add: tag_at_end_def)
  note passes = sniff_tag_at_end
  have one_more: "extractXMLFromPosition (tag_at_end @ ''.'') 1 =
     ''<rsm:CrossIndustryInvoice>a</rsm:CrossIndustryInvoice>''"
    by (simp add: extractXMLFromPosition_def tag_at_end_def endPatterns_def Let_def
          HasPrefix_def)
  from tag_at_end_starts(3) tag_at_end_facts(1,2) expected passes lost [THEN conjunct1]
    manual_tag_at_end one_more manual_only_raw_bytes
  show ?thesis by (intro conjI)
qed

section \<open>The output path\<close>

lemma name_in_iff: "name_in f ks \<longleftrightarrow> f \<in> set ks"
  by (induction ks) auto

text \<open>
  C8. The output path of a single-document extraction is the configured output path,
  unchanged, when one is set (it is not empty). Otherwise it is the container's
  directory joined with the discovered attachment's name when that name is one of the
  five canonical names, and joined with the container's base name without its extension
  plus \<^verbatim>\<open>.xml\<close> when it is not. For the input \<^verbatim>\<open>dir/invoice.pdf\<close> the discovered name
  \<^verbatim>\<open>zugferd-invoice.xml\<close> gives \<^verbatim>\<open>dir/zugferd-invoice.xml\<close> and the discovered name
  \<^verbatim>\<open>weird123.xml\<close> gives \<^verbatim>\<open>dir/invoice.xml\<close>.
\<close>

theorem output_path_rule:
  "generateOutputPath z xmlFilename =
     (if OutputPath z \<noteq> [] then OutputPath z
      else if xmlFilename \<in> {''ZUGFeRD-invoice.xml'', ''zugferd-invoice.xml'', ''factur-x.xml'',
                             ''xrechnung.xml'', ''cii.xml''}
      then Join [Dir (InputPath z), xmlFilename]
      else Join [Dir (InputPath z),
                 TrimSuffix (Base (InputPath z)) (Ext (InputPath z)) @ ''.xml'']) \<and>
   generateOutputPath \<lparr>InputPath = ''dir/invoice.pdf'', OutputPath = [], Verbose = v\<rparr>
     ''zugferd-invoice.xml'' = ''dir/zugferd-invoice.xml'' \<and>
   generateOutputPath \<lparr>InputPath = ''dir/invoice.pdf'', OutputPath = [], Verbose = v\<rparr>
     ''weird123.xml'' = ''dir/invoice.xml'' \<and>
   Dir ''dir/invoice.pdf'' = ''dir'' \<and>
   TrimSuffix (Base ''dir/invoice.pdf'') (Ext ''dir/invoice.pdf'') = ''invoice''"
proof -
  have k: "set KnownXMLFilenames =
      {''ZUGFeRD-invoice.xml'', ''zugferd-invoice.xml'', ''factur-x.xml'',
       ''xrechnung.xml'', ''cii.xml''}"
    by (simp add: KnownXMLFilenames_def)
  have g: "generateOutputPath z xmlFilename =
     (if OutputPath z \<noteq> [] then OutputPath z
      else if xmlFilename \<in> set KnownXMLFilenames
      then Join [Dir (InputPath z), xmlFilename]
      else Join [Dir (InputPath z),
                 TrimSuffix (Base (InputPath z)) (Ext (InputPath z)) @ ''.xml''])"
    by (simp add: generateOutputPath_def isStandardXMLFilename_def name_in_iff Let_def)
  have d: "Dir ''dir/invoice.pdf'' = ''dir''"
    by (simp add: Dir_def Clean_def IsPathSeparator_def)
  have b: "TrimSuffix (Base ''dir/invoice.pdf'') (Ext ''dir/invoice.pdf'') = ''invoice''"
    by (simp add: Base_def Ext_def IsPathSeparator_def TrimSuffix_def HasSuffix_def)
  have e1: "generateOutputPath \<lparr>InputPath = ''dir/invoice.pdf'', OutputPath = [], Verbose = v\<rparr>
     ''zugferd-invoice.xml'' = ''dir/zugferd-invoice.xml''"
    by (simp add: generateOutputPath_def isStandardXMLFilename_def KnownXMLFilenames_def Dir_def Clean_def IsPathSeparator_def Base_def Ext_def TrimSuffix_def HasSuffix_def)
  have e2: "generateOutputPath \<lparr>InputPath = ''dir/invoice.pdf'', OutputPath = [], Verbose = v\<rparr>
     ''weird123.xml'' = ''dir/invoice.xml''"
    by (simp add: generateOutputPath_def isStandardXMLFilename_def KnownXMLFilenames_def Dir_def Clean_def IsPathSeparator_def Base_def Ext_def TrimSuffix_def HasSuffix_def)
  from g [unfolded k] e1 e2 d b show ?thesis by (intro conjI)
qed

section \<open>The strategy chain\<close>

lemma extractAttachmentsManual_nonempty:
  "extractAttachmentsManual lc c = Inr atts \<Longrightarrow> atts \<noteq> []"
  by (auto simp: extractAttachmentsManual_def Let_def split: if_splits option.splits)

lemma standard_rejected: "extractAttachmentsStandard rejected_by_standard = Inl PdfcpuError"
  by (simp add: extractAttachmentsStandard_def rejected_by_standard_def run_rejected_def)

lemma relaxed_reads:
  "extractAttachmentsRelaxed rejected_by_standard = Inr [(''factur-x.xml'', ''<factur-x/>'')]"
  by (simp add: extractAttachmentsRelaxed_def rejected_by_standard_def run_listing_def
        readExtractedFiles_def)

lemma standard_c:
  "extractAttachmentsStandard (container_at directory_in ''in/c.txt'') = Inl PdfcpuError"
  by (simp add: directory_in_def extractAttachmentsStandard_def run_rejected_def)

lemma relaxed_c:
  "extractAttachmentsRelaxed (container_at directory_in ''in/c.txt'') = Inl RelaxedPdfcpuError"
  by (simp add: directory_in_def extractAttachmentsRelaxed_def run_rejected_def)

lemma standard_empty: "extractAttachmentsStandard empty_for_standard = Inr []"
  by (simp add: extractAttachmentsStandard_def empty_for_standard_def run_listing_def
        readExtractedFiles_def)

lemma relaxed_not_empty:
  "extractAttachmentsRelaxed empty_for_standard = Inr [(''factur-x.xml'', ''<factur-x/>'')]"
  by (simp add: extractAttachmentsRelaxed_def empty_for_standard_def run_listing_def
        readExtractedFiles_def)

lemma manual_c:
  "extractAttachmentsManual ToLower (container_at directory_in ''in/c.txt'') =
     Inl ManualFoundNothing"
  by (simp add: directory_in_def extractAttachmentsManual_def xmlStartPatterns_def
        HasPrefix_def Let_def)

lemma chain_b:
  "strategy_chain ToLower (container_at directory_in ''in/b.pdf'') = ([Standard], Inr [])"
  by (simp add: strategy_chain_def directory_in_def extractAttachmentsStandard_def
        run_listing_def readExtractedFiles_def)

text \<open>
  C2, with the empty result as the code treats it. The chain calls Standard, Relaxed
  and Manual in that order and stops at the first strategy that returns without an error; its attachments are the ones
  \<^verbatim>\<open>ExtractXML\<close> goes on with. An empty attachment set returned without an error does
  not make the chain go on: no later strategy is called and \<^verbatim>\<open>ExtractXML\<close> fails with
  the error that the container holds no embedded files. Only the manual strategy counts
  its own empty result as an error, so what it returns without error is never empty.
  When all three return an error the chain fails with the error of the last one wrapped
  as "all methods failed".
\<close>

theorem chain_stops_at_first_strategy_without_error:
  "(fst (strategy_chain lc c) = [Standard] \<or>
    fst (strategy_chain lc c) = [Standard, Relaxed] \<or>
    fst (strategy_chain lc c) = [Standard, Relaxed, Manual]) \<and>
   (\<forall>atts. extractAttachmentsStandard c = Inr atts \<longrightarrow>
      strategy_chain lc c = ([Standard], Inr atts)) \<and>
   (\<forall>e1 atts. extractAttachmentsStandard c = Inl e1 \<and> extractAttachmentsRelaxed c = Inr atts \<longrightarrow>
      strategy_chain lc c = ([Standard, Relaxed], Inr atts)) \<and>
   (\<forall>e1 e2 atts. extractAttachmentsStandard c = Inl e1 \<and> extractAttachmentsRelaxed c = Inl e2 \<and>
      extractAttachmentsManual lc c = Inr atts \<longrightarrow>
      strategy_chain lc c = ([Standard, Relaxed, Manual], Inr atts) \<and> atts \<noteq> []) \<and>
   (\<forall>e1 e2 e3. extractAttachmentsStandard c = Inl e1 \<and> extractAttachmentsRelaxed c = Inl e2 \<and>
      extractAttachmentsManual lc c = Inl e3 \<longrightarrow>
      strategy_chain lc c = ([Standard, Relaxed, Manual], Inl (AllMethodsFailed e3))) \<and>
   (\<forall>tried. strategy_chain lc (container_at w (InputPath z)) = (tried, Inr []) \<longrightarrow>
      ExtractXML lc w z = (tried, Inl NoEmbeddedFiles))"
proof (intro conjI allI impI)
  show "fst (strategy_chain lc c) = [Standard] \<or>
    fst (strategy_chain lc c) = [Standard, Relaxed] \<or>
    fst (strategy_chain lc c) = [Standard, Relaxed, Manual]"
    by (simp add: strategy_chain_def split: sum.splits)
next
  fix atts
  assume "extractAttachmentsStandard c = Inr atts"
  then show "strategy_chain lc c = ([Standard], Inr atts)"
    by (simp add: strategy_chain_def)
next
  fix e1 atts
  assume "extractAttachmentsStandard c = Inl e1 \<and> extractAttachmentsRelaxed c = Inr atts"
  then show "strategy_chain lc c = ([Standard, Relaxed], Inr atts)"
    by (simp add: strategy_chain_def)
next
  fix e1 e2 atts
  assume a: "extractAttachmentsStandard c = Inl e1 \<and> extractAttachmentsRelaxed c = Inl e2 \<and>
      extractAttachmentsManual lc c = Inr atts"
  then show "strategy_chain lc c = ([Standard, Relaxed, Manual], Inr atts)"
    by (simp add: strategy_chain_def)
  from a have "extractAttachmentsManual lc c = Inr atts" by simp
  then show "atts \<noteq> []" by (rule extractAttachmentsManual_nonempty)
next
  fix e1 e2 e3
  assume "extractAttachmentsStandard c = Inl e1 \<and> extractAttachmentsRelaxed c = Inl e2 \<and>
      extractAttachmentsManual lc c = Inl e3"
  then show "strategy_chain lc c = ([Standard, Relaxed, Manual], Inl (AllMethodsFailed e3))"
    by (simp add: strategy_chain_def)
next
  fix tried
  assume "strategy_chain lc (container_at w (InputPath z)) = (tried, Inr [])"
  then show "ExtractXML lc w z = (tried, Inl NoEmbeddedFiles)"
    by (simp add: ExtractXML_def)
qed

theorem chain_witness:
  "strategy_chain ToLower empty_for_standard = ([Standard], Inr []) \<and>
   strategy_chain ToLower rejected_by_standard =
     ([Standard, Relaxed], Inr [(''factur-x.xml'', ''<factur-x/>'')]) \<and>
   strategy_chain ToLower only_raw_bytes =
     ([Standard, Relaxed, Manual],
      Inr [(''invoice.xml'', ''<rsm:CrossIndustryInvoice>a</CrossIndustryInvoice>'')]) \<and>
   strategy_chain ToLower (container_at directory_in ''in/c.txt'') =
     ([Standard, Relaxed, Manual], Inl (AllMethodsFailed ManualFoundNothing)) \<and>
   ExtractXML ToLower directory_in \<lparr>InputPath = ''in/b.pdf'', OutputPath = [], Verbose = False\<rparr> =
     ([Standard], Inl NoEmbeddedFiles)"
proof -
  note e = chain_stops_at_first_strategy_without_error [of ToLower empty_for_standard]
  note r = chain_stops_at_first_strategy_without_error [of ToLower rejected_by_standard]
  note m = chain_stops_at_first_strategy_without_error [of ToLower only_raw_bytes]
  note c = chain_stops_at_first_strategy_without_error
             [of ToLower "container_at directory_in ''in/c.txt''"]
  note b = chain_stops_at_first_strategy_without_error
             [of ToLower _ directory_in
                 "\<lparr>InputPath = ''in/b.pdf'', OutputPath = [], Verbose = False\<rparr>"]
  have w1: "strategy_chain ToLower empty_for_standard = ([Standard], Inr [])"
    by (rule e [THEN conjunct2, THEN conjunct1, rule_format]) (rule standard_empty)
  have w2: "strategy_chain ToLower rejected_by_standard =
     ([Standard, Relaxed], Inr [(''factur-x.xml'', ''<factur-x/>'')])"
    by (rule r [THEN conjunct2, THEN conjunct2, THEN conjunct1, rule_format])
       (rule conjI, rule standard_rejected, rule relaxed_reads)
  have w3: "strategy_chain ToLower only_raw_bytes =
     ([Standard, Relaxed, Manual],
      Inr [(''invoice.xml'', ''<rsm:CrossIndustryInvoice>a</CrossIndustryInvoice>'')])"
    by (rule m [THEN conjunct2, THEN conjunct2, THEN conjunct2, THEN conjunct1, rule_format,
              THEN conjunct1])
       (rule conjI, rule rejected_twice(1), rule conjI, rule rejected_twice(2),
        rule manual_only_raw_bytes)
  have w4: "strategy_chain ToLower (container_at directory_in ''in/c.txt'') =
     ([Standard, Relaxed, Manual], Inl (AllMethodsFailed ManualFoundNothing))"
    by (rule c [THEN conjunct2, THEN conjunct2, THEN conjunct2, THEN conjunct2, THEN conjunct1,
              rule_format])
       (rule conjI, rule standard_c, rule conjI, rule relaxed_c, rule manual_c)
  have "strategy_chain ToLower
          (container_at directory_in
             (InputPath \<lparr>InputPath = ''in/b.pdf'', OutputPath = [], Verbose = False\<rparr>)) =
        ([Standard], Inr [])"
    by (simp add: chain_b)
  then have w5: "ExtractXML ToLower directory_in
      \<lparr>InputPath = ''in/b.pdf'', OutputPath = [], Verbose = False\<rparr> =
     ([Standard], Inl NoEmbeddedFiles)"
    by (rule b [THEN conjunct2, THEN conjunct2, THEN conjunct2, THEN conjunct2, THEN conjunct2,
              rule_format])
  from w1 w2 w3 w4 w5 show ?thesis by (intro conjI)
qed

text \<open>
  C2 with an empty result taken as a failure: the strict parser returns without error
  and finds nothing, the relaxed parser would find an invoice, and yet Relaxed is never
  called and the extraction fails.
\<close>

theorem empty_standard_result_counterexample:
  "extractAttachmentsStandard empty_for_standard = Inr [] \<and>
   extractAttachmentsRelaxed empty_for_standard = Inr [(''factur-x.xml'', ''<factur-x/>'')] \<and>
   strategy_chain ToLower empty_for_standard = ([Standard], Inr []) \<and>
   ExtractXML ToLower
     \<lparr>container_at = (\<lambda>path. empty_for_standard), MkdirAll_ok = (\<lambda>path. True),
      WriteFile_ok = (\<lambda>path. True), Glob_result = (\<lambda>pattern. Some [])\<rparr>
     \<lparr>InputPath = ''invoice.pdf'', OutputPath = [], Verbose = False\<rparr> =
     ([Standard], Inl NoEmbeddedFiles)"
proof -
  have s: "extractAttachmentsStandard empty_for_standard = Inr []"
    by (simp add: extractAttachmentsStandard_def empty_for_standard_def run_listing_def
          readExtractedFiles_def)
  have r: "extractAttachmentsRelaxed empty_for_standard = Inr [(''factur-x.xml'', ''<factur-x/>'')]"
    by (simp add: extractAttachmentsRelaxed_def empty_for_standard_def run_listing_def
          readExtractedFiles_def)
  have c: "strategy_chain ToLower empty_for_standard = ([Standard], Inr [])"
    by (simp add: strategy_chain_def s)
  have x: "ExtractXML ToLower
     \<lparr>container_at = (\<lambda>path. empty_for_standard), MkdirAll_ok = (\<lambda>path. True),
      WriteFile_ok = (\<lambda>path. True), Glob_result = (\<lambda>pattern. Some [])\<rparr>
     \<lparr>InputPath = ''invoice.pdf'', OutputPath = [], Verbose = False\<rparr> =
     ([Standard], Inl NoEmbeddedFiles)"
    by (simp add: ExtractXML_def c)
  from s r c x show ?thesis by (intro conjI)
qed

section \<open>The batch processor\<close>

lemma keep_pdf_filter: "keep_pdf lc files = filter (\<lambda>file. lc (Ext file) = ''.pdf'') files"
  by (induction files) simp_all

lemma tally_sum:
  "fst (tally rs s f) + snd (tally rs s f) = s + f + int (length rs)"
proof (induction rs arbitrary: s f)
  case Nil
  then show ?case by simp
next
  case (Cons r rs)
  obtain result performed where r: "r = (result, performed)" by (cases r)
  show ?case
    unfolding r using Cons.IH [of s "f + 1"] Cons.IH [of "s + 1" f] by simp
qed

lemma worker_Filename: "Filename (fst (worker lc w bp filename)) = filename"
  by (simp add: worker_def Let_def split: sum.splits)

lemma worker_Error:
  "Error (fst (worker lc w bp filename)) = None \<longleftrightarrow> (\<exists>file. snd (worker lc w bp filename) = Inr file)"
  by (simp add: worker_def Let_def split: sum.splits)

lemma ProcessBatch_no_pdf:
  assumes "Glob_result w (InputPattern bp) = Some files" and "keep_pdf lc files = []"
  shows "ProcessBatch lc w bp = (0, Inl (NoPDFFilesFound (InputPattern bp)))"
  using assms by (simp add: ProcessBatch_def Let_def)

lemma ProcessBatch_run:
  assumes "Glob_result w (InputPattern bp) = Some files" and "keep_pdf lc files \<noteq> []"
  shows "ProcessBatch lc w bp =
     (max 0 (Workers bp),
      Inr \<lparr>jobs = keep_pdf lc files,
           results = (if 0 < Workers bp then map (worker lc w bp) (keep_pdf lc files) else []),
           successful_count =
             fst (tally (if 0 < Workers bp then map (worker lc w bp) (keep_pdf lc files) else []) 0 0),
           failed_count =
             snd (tally (if 0 < Workers bp then map (worker lc w bp) (keep_pdf lc files) else []) 0 0)\<rparr>)"
proof -
  from assms(2) have "files \<noteq> []" by auto
  with assms show ?thesis
    by (simp add: ProcessBatch_def Let_def split: prod.splits)
qed

lemma ProcessBatch_results:
  assumes "ProcessBatch lc w bp = (n, Inr run)"
  shows "results run = (if 0 < Workers bp then map (worker lc w bp) (jobs run) else [])"
proof -
  from assms obtain files where g: "Glob_result w (InputPattern bp) = Some files"
    by (cases "Glob_result w (InputPattern bp)") (auto simp: ProcessBatch_def)
  have k: "keep_pdf lc files \<noteq> []"
  proof
    assume "keep_pdf lc files = []"
    from ProcessBatch_no_pdf [OF g this] assms show False by simp
  qed
  from ProcessBatch_run [OF g k] assms
  have "run = \<lparr>jobs = keep_pdf lc files,
           results = (if 0 < Workers bp then map (worker lc w bp) (keep_pdf lc files) else []),
           successful_count =
             fst (tally (if 0 < Workers bp then map (worker lc w bp) (keep_pdf lc files) else []) 0 0),
           failed_count =
             snd (tally (if 0 < Workers bp then map (worker lc w bp) (keep_pdf lc files) else []) 0 0)\<rparr>"
    by simp
  then have "jobs run = keep_pdf lc files"
    "results run = (if 0 < Workers bp then map (worker lc w bp) (keep_pdf lc files) else [])"
    by simp_all
  then show ?thesis by simp
qed

lemma Clean_nonempty: "Clean path \<noteq> []"
  by (simp add: Clean_def Let_def)

lemma Join_nonempty: "dir \<noteq> [] \<Longrightarrow> Join [dir, name] \<noteq> []"
  by (simp add: Clean_nonempty)

lemma worker_performs:
  "snd (worker lc w bp filename) =
     snd (ExtractXML lc w
       \<lparr>InputPath = filename,
        OutputPath =
          (if OutputDir bp \<noteq> []
           then Join [OutputDir bp, TrimSuffix (Base filename) (Ext (Base filename)) @ ''.xml'']
           else []),
        Verbose = BatchVerbose bp\<rparr>)"
proof (cases "OutputDir bp = []")
  case True
  then show ?thesis
    by (simp add: worker_def Let_def del: Join.simps split: sum.splits)
next
  case False
  then show ?thesis
    by (simp add: worker_def Let_def del: Join.simps split: sum.splits)
qed

lemma worker_reports:
  assumes "snd (worker lc w bp filename) = Inr written"
  shows "ReportedOutputPath (fst (worker lc w bp filename)) =
     (if OutputDir bp \<noteq> []
      then Join [OutputDir bp, TrimSuffix (Base filename) (Ext (Base filename)) @ ''.xml'']
      else Join [Dir filename, TrimSuffix (Base filename) (Ext (Base filename)) @ ''.xml''])"
proof (cases "OutputDir bp = []")
  case True
  with assms show ?thesis
    by (simp add: worker_def Let_def del: Join.simps split: sum.splits)
next
  case False
  with assms Join_nonempty [OF False] show ?thesis
    by (simp add: worker_def Let_def del: Join.simps split: sum.splits)
qed

lemma ExtractXML_written_path:
  assumes "snd (ExtractXML lc w z) = Inr file"
  shows "written_path file = generateOutputPath z (source_name file)"
  using assms
  by (auto simp: ExtractXML_def Let_def split: prod.splits sum.splits if_splits option.splits)



subsection \<open>The batch processor on the concrete directory\<close>

lemma chain_a:
  "strategy_chain ToLower (container_at directory_in ''in/a.pdf'') =
     ([Standard], Inr [(''data.xml'', ''<zugferd/>'')])"
  by (simp add: strategy_chain_def directory_in_def extractAttachmentsStandard_def
        run_listing_def readExtractedFiles_def)

lemma chain_d:
  "strategy_chain ToLower (container_at directory_in ''in/d.pdf'') =
     ([Standard], Inr [(''factur-x.xml'', ''<factur-x/>'')])"
  by (simp add: strategy_chain_def directory_in_def extractAttachmentsStandard_def
        run_listing_def readExtractedFiles_def)

lemma chain_scan:
  "strategy_chain ToLower (container_at directory_in ''scans/E.PDF'') =
     ([Standard, Relaxed, Manual], Inl (AllMethodsFailed ManualFoundNothing))"
proof -
  have "extractAttachmentsStandard (container_at directory_in ''scans/E.PDF'') = Inl PdfcpuError"
    by (simp add: directory_in_def extractAttachmentsStandard_def run_rejected_def)
  moreover
  have "extractAttachmentsRelaxed (container_at directory_in ''scans/E.PDF'') =
      Inl RelaxedPdfcpuError"
    by (simp add: directory_in_def extractAttachmentsRelaxed_def run_rejected_def)
  moreover
  have "extractAttachmentsManual ToLower (container_at directory_in ''scans/E.PDF'') =
      Inl ManualFoundNothing"
    by (simp add: directory_in_def extractAttachmentsManual_def xmlStartPatterns_def
          HasPrefix_def Let_def)
  ultimately show ?thesis
    by (simp add: strategy_chain_def)
qed

lemma find_data_xml:
  "findZUGFeRDXML ToLower [(''data.xml'', ''<zugferd/>'')] = Inr (''<zugferd/>'', ''data.xml'')"
proof -
  have "HasSuffix (ToLower ''data.xml'') ''.xml''"
    by (simp add: HasSuffix_def ToLower_def lower_byte_def)
  then show ?thesis
    by (simp add: findZUGFeRDXML_def KnownXMLFilenames_def sniff_zugferd_examples)
qed

lemma find_factur_x:
  "findZUGFeRDXML ToLower [(''factur-x.xml'', ''<factur-x/>'')] =
     Inr (''<factur-x/>'', ''factur-x.xml'')"
  by (simp add: findZUGFeRDXML_def KnownXMLFilenames_def sniff_factur_x)

lemma stems:
  "TrimSuffix (Base ''in/a.pdf'') (Ext ''in/a.pdf'') = ''a''"
  "TrimSuffix (Base ''in/a.pdf'') (Ext (Base ''in/a.pdf'')) = ''a''"
  "TrimSuffix (Base ''in/b.pdf'') (Ext (Base ''in/b.pdf'')) = ''b''"
  "TrimSuffix (Base ''in/d.pdf'') (Ext ''in/d.pdf'') = ''d''"
  "TrimSuffix (Base ''in/d.pdf'') (Ext (Base ''in/d.pdf'')) = ''d''"
  "TrimSuffix (Base ''scans/E.PDF'') (Ext (Base ''scans/E.PDF'')) = ''E''"
  by (simp_all add: Base_def Ext_def IsPathSeparator_def TrimSuffix_def HasSuffix_def)

lemma dir_in: "Dir ''in/a.pdf'' = ''in''" "Dir ''in/d.pdf'' = ''in''"
  by (simp_all add: Dir_def Clean_def IsPathSeparator_def)

lemma clean_in: "Clean ''in/a.xml'' = ''in/a.xml''" "Clean ''in/d.xml'' = ''in/d.xml''"
  "Clean ''in/factur-x.xml'' = ''in/factur-x.xml''"
  "Clean ''out/a.xml'' = ''out/a.xml''" "Clean ''out/b.xml'' = ''out/b.xml''"
  "Clean ''out/d.xml'' = ''out/d.xml''"
  by (simp_all add: Clean_def IsPathSeparator_def)

lemma path_a:
  "generateOutputPath \<lparr>InputPath = ''in/a.pdf'', OutputPath = [], Verbose = v\<rparr> ''data.xml'' =
     ''in/a.xml''"
  by (simp add: generateOutputPath_def isStandardXMLFilename_def KnownXMLFilenames_def
        stems dir_in clean_in)

lemma path_d:
  "generateOutputPath \<lparr>InputPath = ''in/d.pdf'', OutputPath = [], Verbose = v\<rparr> ''factur-x.xml'' =
     ''in/factur-x.xml''"
  by (simp add: generateOutputPath_def isStandardXMLFilename_def KnownXMLFilenames_def
        dir_in clean_in)

lemma save_in: "saveXMLToFile directory_in data path = None"
  by (simp add: saveXMLToFile_def directory_in_def)

lemma extract_a:
  "ExtractXML ToLower directory_in \<lparr>InputPath = ''in/a.pdf'', OutputPath = [], Verbose = v\<rparr> =
     ([Standard], Inr \<lparr>written_path = ''in/a.xml'', written_bytes = ''<zugferd/>'',
                       source_name = ''data.xml''\<rparr>)"
  by (simp add: ExtractXML_def chain_a find_data_xml path_a save_in)

lemma extract_a_out:
  "ExtractXML ToLower directory_in
     \<lparr>InputPath = ''in/a.pdf'', OutputPath = ''out/a.xml'', Verbose = v\<rparr> =
     ([Standard], Inr \<lparr>written_path = ''out/a.xml'', written_bytes = ''<zugferd/>'',
                       source_name = ''data.xml''\<rparr>)"
  by (simp add: ExtractXML_def chain_a find_data_xml generateOutputPath_def save_in)

lemma extract_b:
  "ExtractXML ToLower directory_in \<lparr>InputPath = ''in/b.pdf'', OutputPath = p, Verbose = v\<rparr> =
     ([Standard], Inl NoEmbeddedFiles)"
  by (simp add: ExtractXML_def chain_b)

lemma extract_d:
  "ExtractXML ToLower directory_in \<lparr>InputPath = ''in/d.pdf'', OutputPath = [], Verbose = v\<rparr> =
     ([Standard], Inr \<lparr>written_path = ''in/factur-x.xml'', written_bytes = ''<factur-x/>'',
                       source_name = ''factur-x.xml''\<rparr>)"
  by (simp add: ExtractXML_def chain_d find_factur_x path_d save_in)

lemma extract_d_out:
  "ExtractXML ToLower directory_in
     \<lparr>InputPath = ''in/d.pdf'', OutputPath = ''out/d.xml'', Verbose = v\<rparr> =
     ([Standard], Inr \<lparr>written_path = ''out/d.xml'', written_bytes = ''<factur-x/>'',
                       source_name = ''factur-x.xml''\<rparr>)"
  by (simp add: ExtractXML_def chain_d find_factur_x generateOutputPath_def save_in)

lemma extract_scan:
  "ExtractXML ToLower directory_in \<lparr>InputPath = ''scans/E.PDF'', OutputPath = p, Verbose = v\<rparr> =
     ([Standard, Relaxed, Manual], Inl (AllMethodsFailed ManualFoundNothing))"
  by (simp add: ExtractXML_def chain_scan)

lemma worker_a:
  "worker ToLower directory_in
     \<lparr>InputPattern = pat, OutputDir = [], Workers = k, BatchVerbose = v\<rparr> ''in/a.pdf'' =
     (\<lparr>Filename = ''in/a.pdf'', ReportedOutputPath = ''in/a.xml'', Error = None\<rparr>,
      Inr \<lparr>written_path = ''in/a.xml'', written_bytes = ''<zugferd/>'',
           source_name = ''data.xml''\<rparr>)"
  by (simp add: worker_def extract_a stems dir_in clean_in)

lemma worker_a_out:
  "worker ToLower directory_in
     \<lparr>InputPattern = pat, OutputDir = ''out'', Workers = k, BatchVerbose = v\<rparr> ''in/a.pdf'' =
     (\<lparr>Filename = ''in/a.pdf'', ReportedOutputPath = ''out/a.xml'', Error = None\<rparr>,
      Inr \<lparr>written_path = ''out/a.xml'', written_bytes = ''<zugferd/>'',
           source_name = ''data.xml''\<rparr>)"
  by (simp add: worker_def extract_a_out stems clean_in Let_def)

lemma worker_b:
  "worker ToLower directory_in
     \<lparr>InputPattern = pat, OutputDir = dir, Workers = k, BatchVerbose = v\<rparr> ''in/b.pdf'' =
     (\<lparr>Filename = ''in/b.pdf'', ReportedOutputPath = [], Error = Some NoEmbeddedFiles\<rparr>,
      Inl NoEmbeddedFiles)"
  by (simp add: worker_def extract_b Let_def del: Join.simps)

lemma worker_d:
  "worker ToLower directory_in
     \<lparr>InputPattern = pat, OutputDir = [], Workers = k, BatchVerbose = v\<rparr> ''in/d.pdf'' =
     (\<lparr>Filename = ''in/d.pdf'', ReportedOutputPath = ''in/d.xml'', Error = None\<rparr>,
      Inr \<lparr>written_path = ''in/factur-x.xml'', written_bytes = ''<factur-x/>'',
           source_name = ''factur-x.xml''\<rparr>)"
  by (simp add: worker_def extract_d stems dir_in clean_in)

lemma worker_d_out:
  "worker ToLower directory_in
     \<lparr>InputPattern = pat, OutputDir = ''out'', Workers = k, BatchVerbose = v\<rparr> ''in/d.pdf'' =
     (\<lparr>Filename = ''in/d.pdf'', ReportedOutputPath = ''out/d.xml'', Error = None\<rparr>,
      Inr \<lparr>written_path = ''out/d.xml'', written_bytes = ''<factur-x/>'',
           source_name = ''factur-x.xml''\<rparr>)"
  by (simp add: worker_def extract_d_out stems clean_in Let_def)

lemma worker_scan:
  "worker ToLower directory_in
     \<lparr>InputPattern = pat, OutputDir = dir, Workers = k, BatchVerbose = v\<rparr> ''scans/E.PDF'' =
     (\<lparr>Filename = ''scans/E.PDF'', ReportedOutputPath = [],
       Error = Some (AllMethodsFailed ManualFoundNothing)\<rparr>,
      Inl (AllMethodsFailed ManualFoundNothing))"
  by (simp add: worker_def extract_scan Let_def del: Join.simps)

lemma extensions:
  "ToLower (Ext ''in/a.pdf'') = ''.pdf''" "ToLower (Ext ''in/b.pdf'') = ''.pdf''"
  "ToLower (Ext ''in/c.txt'') = ''.txt''" "ToLower (Ext ''in/d.pdf'') = ''.pdf''"
  "ToLower (Ext ''scans/E.PDF'') = ''.pdf''" "ToLower (Ext ''scans/readme.md'') = ''.md''"
  by (simp_all add: Ext_def IsPathSeparator_def ToLower_def lower_byte_def)

lemma globs:
  "Glob_result directory_in ''in/*'' = Some [''in/a.pdf'', ''in/b.pdf'', ''in/c.txt'']"
  "Glob_result directory_in ''in/*.pdf'' = Some [''in/a.pdf'', ''in/b.pdf'', ''in/d.pdf'']"
  "Glob_result directory_in ''in/*.txt'' = Some [''in/c.txt'']"
  "Glob_result directory_in ''scans/*'' = Some [''scans/E.PDF'', ''scans/readme.md'']"
  by (simp_all add: directory_in_def)

lemma batch_in_all:
  "ProcessBatch ToLower directory_in
     \<lparr>InputPattern = ''in/*'', OutputDir = [], Workers = 2, BatchVerbose = False\<rparr> =
     (2, Inr \<lparr>jobs = [''in/a.pdf'', ''in/b.pdf''],
              results =
                [(\<lparr>Filename = ''in/a.pdf'', ReportedOutputPath = ''in/a.xml'', Error = None\<rparr>,
                  Inr \<lparr>written_path = ''in/a.xml'', written_bytes = ''<zugferd/>'',
                       source_name = ''data.xml''\<rparr>),
                 (\<lparr>Filename = ''in/b.pdf'', ReportedOutputPath = [],
                   Error = Some NoEmbeddedFiles\<rparr>,
                  Inl NoEmbeddedFiles)],
              successful_count = 1, failed_count = 1\<rparr>)"
  by (simp add: ProcessBatch_def globs extensions worker_a worker_b)

lemma batch_scans:
  "ProcessBatch ToLower directory_in
     \<lparr>InputPattern = ''scans/*'', OutputDir = [], Workers = 2, BatchVerbose = False\<rparr> =
     (2, Inr \<lparr>jobs = [''scans/E.PDF''],
              results =
                [(\<lparr>Filename = ''scans/E.PDF'', ReportedOutputPath = [],
                   Error = Some (AllMethodsFailed ManualFoundNothing)\<rparr>,
                  Inl (AllMethodsFailed ManualFoundNothing))],
              successful_count = 0, failed_count = 1\<rparr>)"
  by (simp add: ProcessBatch_def globs extensions worker_scan)

lemma batch_in_out:
  "ProcessBatch ToLower directory_in
     \<lparr>InputPattern = ''in/*.pdf'', OutputDir = ''out'', Workers = 2, BatchVerbose = False\<rparr> =
     (2, Inr \<lparr>jobs = [''in/a.pdf'', ''in/b.pdf'', ''in/d.pdf''],
              results =
                [(\<lparr>Filename = ''in/a.pdf'', ReportedOutputPath = ''out/a.xml'', Error = None\<rparr>,
                  Inr \<lparr>written_path = ''out/a.xml'', written_bytes = ''<zugferd/>'',
                       source_name = ''data.xml''\<rparr>),
                 (\<lparr>Filename = ''in/b.pdf'', ReportedOutputPath = [],
                   Error = Some NoEmbeddedFiles\<rparr>,
                  Inl NoEmbeddedFiles),
                 (\<lparr>Filename = ''in/d.pdf'', ReportedOutputPath = ''out/d.xml'', Error = None\<rparr>,
                  Inr \<lparr>written_path = ''out/d.xml'', written_bytes = ''<factur-x/>'',
                       source_name = ''factur-x.xml''\<rparr>)],
              successful_count = 2, failed_count = 1\<rparr>)"
  by (simp add: ProcessBatch_def globs extensions worker_a_out worker_b worker_d_out)

text \<open>
  C4. Whatever list the glob expansion returns, \<^verbatim>\<open>ProcessBatch\<close> keeps the entries whose
  extension, lower-cased, is \<^verbatim>\<open>.pdf\<close>, and only those go on the \<^verbatim>\<open>jobs\<close> channel: an
  entry with another extension is not in the queue and no result carries its name.
  Every result belongs to a queued path, with workers running there is one result per
  queued path, and the two counters add up to the number of results. When no entry is
  left after the filter, \<^verbatim>\<open>ProcessBatch\<close> returns its "no PDF files found" error
  before it starts a worker.
\<close>

theorem batch_queue_holds_only_pdf:
  "Glob_result w (InputPattern bp) = Some files \<longrightarrow>
     (filter (\<lambda>file. lc (Ext file) = ''.pdf'') files = [] \<longrightarrow>
        ProcessBatch lc w bp = (0, Inl (NoPDFFilesFound (InputPattern bp)))) \<and>
     (filter (\<lambda>file. lc (Ext file) = ''.pdf'') files \<noteq> [] \<longrightarrow>
        (\<exists>run. ProcessBatch lc w bp = (max 0 (Workers bp), Inr run) \<and>
           jobs run = filter (\<lambda>file. lc (Ext file) = ''.pdf'') files \<and>
           (\<forall>file. lc (Ext file) \<noteq> ''.pdf'' \<longrightarrow>
              file \<notin> set (jobs run) \<and> (\<forall>r \<in> set (results run). Filename (fst r) \<noteq> file)) \<and>
           (\<forall>r \<in> set (results run). Filename (fst r) \<in> set (jobs run)) \<and>
           (0 < Workers bp \<longrightarrow> map (\<lambda>r. Filename (fst r)) (results run) = jobs run) \<and>
           successful_count run + failed_count run = int (length (results run))))"
proof (intro impI conjI)
  assume g: "Glob_result w (InputPattern bp) = Some files"
    and e: "filter (\<lambda>file. lc (Ext file) = ''.pdf'') files = []"
  from e have "keep_pdf lc files = []" by (simp add: keep_pdf_filter)
  with g show "ProcessBatch lc w bp = (0, Inl (NoPDFFilesFound (InputPattern bp)))"
    by (rule ProcessBatch_no_pdf)
next
  assume g: "Glob_result w (InputPattern bp) = Some files"
    and ne: "filter (\<lambda>file. lc (Ext file) = ''.pdf'') files \<noteq> []"
  define pdfFiles where "pdfFiles = keep_pdf lc files"
  define received where
    "received = (if 0 < Workers bp then map (worker lc w bp) pdfFiles else [])"
  define run where
    "run = \<lparr>jobs = pdfFiles, results = received,
            successful_count = fst (tally received 0 0),
            failed_count = snd (tally received 0 0)\<rparr>"
  have f: "pdfFiles = filter (\<lambda>file. lc (Ext file) = ''.pdf'') files"
    by (simp only: pdfFiles_def keep_pdf_filter)
  from ne have "keep_pdf lc files \<noteq> []" by (simp add: keep_pdf_filter)
  from ProcessBatch_run [OF g this]
  have p: "ProcessBatch lc w bp = (max 0 (Workers bp), Inr run)"
    by (simp only: run_def received_def pdfFiles_def)
  have j: "jobs run = filter (\<lambda>file. lc (Ext file) = ''.pdf'') files"
    by (simp add: run_def f)
  have names: "map (\<lambda>r. Filename (fst r)) (map (worker lc w bp) pdfFiles) = pdfFiles"
    by (simp add: o_def worker_Filename)
  have sub: "\<forall>r \<in> set (results run). Filename (fst r) \<in> set (jobs run)"
  proof
    fix r
    assume "r \<in> set (results run)"
    then obtain x where "x \<in> set pdfFiles" "r = worker lc w bp x"
      by (auto simp: run_def received_def split: if_splits)
    then show "Filename (fst r) \<in> set (jobs run)"
      by (simp add: worker_Filename run_def)
  qed
  have other: "\<forall>file. lc (Ext file) \<noteq> ''.pdf'' \<longrightarrow>
      file \<notin> set (jobs run) \<and> (\<forall>r \<in> set (results run). Filename (fst r) \<noteq> file)"
  proof (intro allI impI)
    fix path
    assume "lc (Ext path) \<noteq> ''.pdf''"
    then have n: "path \<notin> set (jobs run)" by (simp add: j)
    with sub have "\<forall>r \<in> set (results run). Filename (fst r) \<noteq> path" by blast
    with n show "path \<notin> set (jobs run) \<and> (\<forall>r \<in> set (results run). Filename (fst r) \<noteq> path)"
      by (rule conjI)
  qed
  have one: "0 < Workers bp \<longrightarrow> map (\<lambda>r. Filename (fst r)) (results run) = jobs run"
    using names by (simp add: run_def received_def)
  have total: "successful_count run + failed_count run = int (length (results run))"
    using tally_sum [of received 0 0] by (simp add: run_def)
  from p j other sub one total
  show "\<exists>run. ProcessBatch lc w bp = (max 0 (Workers bp), Inr run) \<and>
           jobs run = filter (\<lambda>file. lc (Ext file) = ''.pdf'') files \<and>
           (\<forall>file. lc (Ext file) \<noteq> ''.pdf'' \<longrightarrow>
              file \<notin> set (jobs run) \<and> (\<forall>r \<in> set (results run). Filename (fst r) \<noteq> file)) \<and>
           (\<forall>r \<in> set (results run). Filename (fst r) \<in> set (jobs run)) \<and>
           (0 < Workers bp \<longrightarrow> map (\<lambda>r. Filename (fst r)) (results run) = jobs run) \<and>
           successful_count run + failed_count run = int (length (results run))"
    by (intro exI [of _ run] conjI)
qed

theorem batch_queue_witness:
  "Glob_result directory_in ''in/*'' = Some [''in/a.pdf'', ''in/b.pdf'', ''in/c.txt''] \<and>
   (\<exists>run. ProcessBatch ToLower directory_in
            \<lparr>InputPattern = ''in/*'', OutputDir = [], Workers = 2, BatchVerbose = False\<rparr> =
            (2, Inr run) \<and>
          jobs run = [''in/a.pdf'', ''in/b.pdf''] \<and>
          ''in/c.txt'' \<notin> set (jobs run) \<and>
          map (\<lambda>r. Filename (fst r)) (results run) = [''in/a.pdf'', ''in/b.pdf''] \<and>
          successful_count run = 1 \<and> failed_count run = 1) \<and>
   Glob_result directory_in ''in/*.txt'' = Some [''in/c.txt''] \<and>
   ProcessBatch ToLower directory_in
     \<lparr>InputPattern = ''in/*.txt'', OutputDir = [], Workers = 2, BatchVerbose = False\<rparr> =
     (0, Inl (NoPDFFilesFound ''in/*.txt'')) \<and>
   Glob_result directory_in ''scans/*'' = Some [''scans/E.PDF'', ''scans/readme.md''] \<and>
   (\<exists>run. ProcessBatch ToLower directory_in
            \<lparr>InputPattern = ''scans/*'', OutputDir = [], Workers = 2, BatchVerbose = False\<rparr> =
            (2, Inr run) \<and>
          jobs run = [''scans/E.PDF''] \<and>
          map (\<lambda>r. Filename (fst r)) (results run) = [''scans/E.PDF''] \<and>
          successful_count run = 0 \<and> failed_count run = 1)"
proof -
  let ?all = "\<lparr>InputPattern = ''in/*'', OutputDir = [], Workers = 2, BatchVerbose = False\<rparr>"
  let ?txt = "\<lparr>InputPattern = ''in/*.txt'', OutputDir = [], Workers = 2, BatchVerbose = False\<rparr>"
  let ?scans = "\<lparr>InputPattern = ''scans/*'', OutputDir = [], Workers = 2, BatchVerbose = False\<rparr>"
  have ga: "Glob_result directory_in (InputPattern ?all) =
      Some [''in/a.pdf'', ''in/b.pdf'', ''in/c.txt'']"
    by (simp add: globs)
  have fa: "filter (\<lambda>file. ToLower (Ext file) = ''.pdf'') [''in/a.pdf'', ''in/b.pdf'', ''in/c.txt''] =
      [''in/a.pdf'', ''in/b.pdf'']"
    by (simp add: extensions)
  from batch_queue_holds_only_pdf
         [of directory_in ?all "[''in/a.pdf'', ''in/b.pdf'', ''in/c.txt'']" ToLower] ga
  have "(filter (\<lambda>file. ToLower (Ext file) = ''.pdf'') [''in/a.pdf'', ''in/b.pdf'', ''in/c.txt''] = [] \<longrightarrow>
        ProcessBatch ToLower directory_in ?all = (0, Inl (NoPDFFilesFound (InputPattern ?all)))) \<and>
     (filter (\<lambda>file. ToLower (Ext file) = ''.pdf'') [''in/a.pdf'', ''in/b.pdf'', ''in/c.txt''] \<noteq> [] \<longrightarrow>
        (\<exists>run. ProcessBatch ToLower directory_in ?all = (max 0 (Workers ?all), Inr run) \<and>
           jobs run = filter (\<lambda>file. ToLower (Ext file) = ''.pdf'')
                        [''in/a.pdf'', ''in/b.pdf'', ''in/c.txt''] \<and>
           (\<forall>file. ToLower (Ext file) \<noteq> ''.pdf'' \<longrightarrow>
              file \<notin> set (jobs run) \<and> (\<forall>r \<in> set (results run). Filename (fst r) \<noteq> file)) \<and>
           (\<forall>r \<in> set (results run). Filename (fst r) \<in> set (jobs run)) \<and>
           (0 < Workers ?all \<longrightarrow> map (\<lambda>r. Filename (fst r)) (results run) = jobs run) \<and>
           successful_count run + failed_count run = int (length (results run))))"
    by (rule mp)
  then obtain run where run:
    "ProcessBatch ToLower directory_in ?all = (max 0 (Workers ?all), Inr run)"
    "jobs run = filter (\<lambda>file. ToLower (Ext file) = ''.pdf'')
                  [''in/a.pdf'', ''in/b.pdf'', ''in/c.txt'']"
    "\<forall>file. ToLower (Ext file) \<noteq> ''.pdf'' \<longrightarrow>
       file \<notin> set (jobs run) \<and> (\<forall>r \<in> set (results run). Filename (fst r) \<noteq> file)"
    "0 < Workers ?all \<longrightarrow> map (\<lambda>r. Filename (fst r)) (results run) = jobs run"
    unfolding fa by auto
  from run(1) have r1: "ProcessBatch ToLower directory_in ?all = (2, Inr run)"
    by simp
  from run(2) have r2: "jobs run = [''in/a.pdf'', ''in/b.pdf'']"
    unfolding fa .
  from run(3) extensions(3) have r3: "''in/c.txt'' \<notin> set (jobs run)"
    by simp
  from run(4) have r4: "map (\<lambda>r. Filename (fst r)) (results run) = [''in/a.pdf'', ''in/b.pdf'']"
    unfolding r2 by simp
  from r1 batch_in_all have r5: "successful_count run = 1" "failed_count run = 1"
    by auto
  from r1 r2 r3 r4 r5
  have first: "\<exists>run. ProcessBatch ToLower directory_in ?all = (2, Inr run) \<and>
          jobs run = [''in/a.pdf'', ''in/b.pdf''] \<and>
          ''in/c.txt'' \<notin> set (jobs run) \<and>
          map (\<lambda>r. Filename (fst r)) (results run) = [''in/a.pdf'', ''in/b.pdf''] \<and>
          successful_count run = 1 \<and> failed_count run = 1"
    by (intro exI [of _ run] conjI)
  have gt: "Glob_result directory_in (InputPattern ?txt) = Some [''in/c.txt'']"
    by (simp add: globs)
  have ft: "filter (\<lambda>file. ToLower (Ext file) = ''.pdf'') [''in/c.txt''] = []"
    by (simp add: extensions)
  from batch_queue_holds_only_pdf [of directory_in ?txt "[''in/c.txt'']" ToLower] gt
  have "(filter (\<lambda>file. ToLower (Ext file) = ''.pdf'') [''in/c.txt''] = [] \<longrightarrow>
        ProcessBatch ToLower directory_in ?txt = (0, Inl (NoPDFFilesFound (InputPattern ?txt))))"
    by (rule mp [THEN conjunct1])
  with ft have "ProcessBatch ToLower directory_in ?txt =
      (0, Inl (NoPDFFilesFound (InputPattern ?txt)))"
    by (rule rev_mp)
  then have second: "ProcessBatch ToLower directory_in ?txt =
      (0, Inl (NoPDFFilesFound ''in/*.txt''))"
    by simp
  have third: "\<exists>run. ProcessBatch ToLower directory_in ?scans = (2, Inr run) \<and>
          jobs run = [''scans/E.PDF''] \<and>
          map (\<lambda>r. Filename (fst r)) (results run) = [''scans/E.PDF''] \<and>
          successful_count run = 0 \<and> failed_count run = 1"
    unfolding batch_scans by simp
  from globs(1) first globs(3) second globs(4) third show ?thesis
    by (intro conjI)
qed

text \<open>
  C5. Every result of a batch is what \<^verbatim>\<open>worker\<close> reports for one queued path. With an
  output directory configured, the worker runs the single-document extraction with
  the output path set to that directory joined with the container's base name without
  its extension plus \<^verbatim>\<open>.xml\<close>, and every successful extraction has written its file at
  that path, which is also the path reported. With no output directory, the worker
  runs the single-document extraction with no output path set, so a successful
  extraction has written its file where the single-document rule puts it: in the
  container's directory, under the attachment's name when that is one of the canonical
  names and under the container's base name without its extension plus \<^verbatim>\<open>.xml\<close>
  otherwise.
\<close>

theorem batch_output_path:
  "(ProcessBatch lc w bp = (n, Inr run) \<longrightarrow>
      (\<forall>r \<in> set (results run). \<exists>filename \<in> set (jobs run). r = worker lc w bp filename)) \<and>
   (OutputDir bp \<noteq> [] \<longrightarrow>
      snd (worker lc w bp filename) =
        snd (ExtractXML lc w
          \<lparr>InputPath = filename,
           OutputPath = Join [OutputDir bp, TrimSuffix (Base filename) (Ext (Base filename)) @ ''.xml''],
           Verbose = BatchVerbose bp\<rparr>) \<and>
      (\<forall>file. snd (worker lc w bp filename) = Inr file \<longrightarrow>
         written_path file =
           Join [OutputDir bp, TrimSuffix (Base filename) (Ext (Base filename)) @ ''.xml''] \<and>
         ReportedOutputPath (fst (worker lc w bp filename)) = written_path file)) \<and>
   (OutputDir bp = [] \<longrightarrow>
      snd (worker lc w bp filename) =
        snd (ExtractXML lc w
          \<lparr>InputPath = filename, OutputPath = [], Verbose = BatchVerbose bp\<rparr>) \<and>
      (\<forall>file. snd (worker lc w bp filename) = Inr file \<longrightarrow>
         written_path file =
           (if source_name file \<in> set KnownXMLFilenames
            then Join [Dir filename, source_name file]
            else Join [Dir filename, TrimSuffix (Base filename) (Ext filename) @ ''.xml''])))"
proof (intro conjI impI allI)
  assume p: "ProcessBatch lc w bp = (n, Inr run)"
  from ProcessBatch_results [OF p]
  show "\<forall>r \<in> set (results run). \<exists>filename \<in> set (jobs run). r = worker lc w bp filename"
    by (auto split: if_splits)
next
  assume d: "OutputDir bp \<noteq> []"
  then show "snd (worker lc w bp filename) =
        snd (ExtractXML lc w
          \<lparr>InputPath = filename,
           OutputPath = Join [OutputDir bp, TrimSuffix (Base filename) (Ext (Base filename)) @ ''.xml''],
           Verbose = BatchVerbose bp\<rparr>)"
    by (simp add: worker_performs del: Join.simps)
next
  fix written
  assume d: "OutputDir bp \<noteq> []" and s: "snd (worker lc w bp filename) = Inr written"
  let ?o = "Join [OutputDir bp, TrimSuffix (Base filename) (Ext (Base filename)) @ ''.xml'']"
  let ?z = "\<lparr>InputPath = filename, OutputPath = ?o, Verbose = BatchVerbose bp\<rparr>"
  from d have o: "?o \<noteq> []" by (rule Join_nonempty)
  from d s have x: "snd (ExtractXML lc w ?z) = Inr written"
    by (simp add: worker_performs del: Join.simps)
  from ExtractXML_written_path [OF x] o
  show "written_path written = ?o"
    by (simp add: generateOutputPath_def del: Join.simps)
next
  fix written
  assume d: "OutputDir bp \<noteq> []" and s: "snd (worker lc w bp filename) = Inr written"
  let ?o = "Join [OutputDir bp, TrimSuffix (Base filename) (Ext (Base filename)) @ ''.xml'']"
  let ?z = "\<lparr>InputPath = filename, OutputPath = ?o, Verbose = BatchVerbose bp\<rparr>"
  from d have o: "?o \<noteq> []" by (rule Join_nonempty)
  from d s have x: "snd (ExtractXML lc w ?z) = Inr written"
    by (simp add: worker_performs del: Join.simps)
  from ExtractXML_written_path [OF x] o
  have wp: "written_path written = ?o"
    by (simp add: generateOutputPath_def del: Join.simps)
  from worker_reports [OF s] d
  have "ReportedOutputPath (fst (worker lc w bp filename)) = ?o"
    by (simp del: Join.simps)
  with wp show "ReportedOutputPath (fst (worker lc w bp filename)) = written_path written"
    by simp
next
  assume d: "OutputDir bp = []"
  then show "snd (worker lc w bp filename) =
        snd (ExtractXML lc w
          \<lparr>InputPath = filename, OutputPath = [], Verbose = BatchVerbose bp\<rparr>)"
    by (simp add: worker_performs)
next
  fix written
  assume d: "OutputDir bp = []" and s: "snd (worker lc w bp filename) = Inr written"
  let ?z = "\<lparr>InputPath = filename, OutputPath = [], Verbose = BatchVerbose bp\<rparr>"
  from d s have x: "snd (ExtractXML lc w ?z) = Inr written"
    by (simp add: worker_performs)
  from ExtractXML_written_path [OF x]
  show "written_path written =
           (if source_name written \<in> set KnownXMLFilenames
            then Join [Dir filename, source_name written]
            else Join [Dir filename, TrimSuffix (Base filename) (Ext filename) @ ''.xml''])"
    by (simp add: generateOutputPath_def isStandardXMLFilename_def name_in_iff Let_def
          del: Join.simps)
qed

theorem batch_output_path_witness:
  "ProcessBatch ToLower directory_in
     \<lparr>InputPattern = ''in/*.pdf'', OutputDir = ''out'', Workers = 2, BatchVerbose = False\<rparr> =
     (2, Inr \<lparr>jobs = [''in/a.pdf'', ''in/b.pdf'', ''in/d.pdf''],
              results =
                [(\<lparr>Filename = ''in/a.pdf'', ReportedOutputPath = ''out/a.xml'', Error = None\<rparr>,
                  Inr \<lparr>written_path = ''out/a.xml'', written_bytes = ''<zugferd/>'',
                       source_name = ''data.xml''\<rparr>),
                 (\<lparr>Filename = ''in/b.pdf'', ReportedOutputPath = [],
                   Error = Some NoEmbeddedFiles\<rparr>,
                  Inl NoEmbeddedFiles),
                 (\<lparr>Filename = ''in/d.pdf'', ReportedOutputPath = ''out/d.xml'', Error = None\<rparr>,
                  Inr \<lparr>written_path = ''out/d.xml'', written_bytes = ''<factur-x/>'',
                       source_name = ''factur-x.xml''\<rparr>)],
              successful_count = 2, failed_count = 1\<rparr>) \<and>
   Join [''out'', TrimSuffix (Base ''in/d.pdf'') (Ext (Base ''in/d.pdf'')) @ ''.xml''] =
     ''out/d.xml'' \<and>
   snd (worker ToLower directory_in
     \<lparr>InputPattern = ''in/*.pdf'', OutputDir = [], Workers = 2, BatchVerbose = False\<rparr>
     ''in/a.pdf'') =
     Inr \<lparr>written_path = ''in/a.xml'', written_bytes = ''<zugferd/>'',
          source_name = ''data.xml''\<rparr> \<and>
   snd (worker ToLower directory_in
     \<lparr>InputPattern = ''in/*.pdf'', OutputDir = [], Workers = 2, BatchVerbose = False\<rparr>
     ''in/d.pdf'') =
     Inr \<lparr>written_path = ''in/factur-x.xml'', written_bytes = ''<factur-x/>'',
          source_name = ''factur-x.xml''\<rparr> \<and>
   Join [Dir ''in/d.pdf'', ''factur-x.xml''] = ''in/factur-x.xml'' \<and>
   Join [Dir ''in/a.pdf'', TrimSuffix (Base ''in/a.pdf'') (Ext ''in/a.pdf'') @ ''.xml''] =
     ''in/a.xml''"
proof -
  let ?out = "\<lparr>InputPattern = ''in/*.pdf'', OutputDir = ''out'', Workers = 2,
                BatchVerbose = False\<rparr>"
  let ?default = "\<lparr>InputPattern = ''in/*.pdf'', OutputDir = [], Workers = 2,
                    BatchVerbose = False\<rparr>"
  let ?wd = "\<lparr>written_path = ''out/d.xml'', written_bytes = ''<factur-x/>'',
               source_name = ''factur-x.xml''\<rparr>"
  let ?wa = "\<lparr>written_path = ''in/a.xml'', written_bytes = ''<zugferd/>'',
               source_name = ''data.xml''\<rparr>"
  let ?wf = "\<lparr>written_path = ''in/factur-x.xml'', written_bytes = ''<factur-x/>'',
               source_name = ''factur-x.xml''\<rparr>"
  have od: "OutputDir ?out \<noteq> []" by simp
  have sd: "snd (worker ToLower directory_in ?out ''in/d.pdf'') = Inr ?wd"
    by (simp add: worker_d_out)
  note t = batch_output_path [where lc = ToLower and w = directory_in and bp = "?out" and filename = "''in/d.pdf''"]
  from t [THEN conjunct2, THEN conjunct1, rule_format, OF od, THEN conjunct2, rule_format, OF sd]
  have "written_path ?wd =
      Join [OutputDir ?out, TrimSuffix (Base ''in/d.pdf'') (Ext (Base ''in/d.pdf'')) @ ''.xml'']"
    by (rule conjunct1)
  then have p1: "Join [''out'', TrimSuffix (Base ''in/d.pdf'') (Ext (Base ''in/d.pdf'')) @ ''.xml''] =
      ''out/d.xml''"
    by (simp del: Join.simps)
  have nd: "OutputDir ?default = []" by simp
  have s1: "snd (worker ToLower directory_in ?default ''in/a.pdf'') = Inr ?wa"
    by (simp add: worker_a)
  have s2: "snd (worker ToLower directory_in ?default ''in/d.pdf'') = Inr ?wf"
    by (simp add: worker_d)
  note u = batch_output_path [where lc = ToLower and w = directory_in and bp = "?default" and filename = "''in/d.pdf''"]
  from u [THEN conjunct2, THEN conjunct2, rule_format, OF nd, THEN conjunct2, rule_format, OF s2]
  have p2: "Join [Dir ''in/d.pdf'', ''factur-x.xml''] = ''in/factur-x.xml''"
    by (simp add: KnownXMLFilenames_def del: Join.simps)
  note v = batch_output_path [where lc = ToLower and w = directory_in and bp = "?default" and filename = "''in/a.pdf''"]
  from v [THEN conjunct2, THEN conjunct2, rule_format, OF nd, THEN conjunct2, rule_format, OF s1]
  have p3: "Join [Dir ''in/a.pdf'', TrimSuffix (Base ''in/a.pdf'') (Ext ''in/a.pdf'') @ ''.xml''] =
      ''in/a.xml''"
    by (simp add: KnownXMLFilenames_def del: Join.simps)
  from batch_in_out p1 s1 s2 p2 p3 show ?thesis
    by (intro conjI)
qed

end
